theory Spec2Isabelle
  imports Complex_Main
begin

section \<open>Product records\<close>

text \<open>
  \<^verbatim>\<open>interface ProductData\<close> of the presentation layer: every field but \<open>name\<close> is
  optional. A field that is absent (\<^verbatim>\<open>undefined\<close>) or \<^verbatim>\<open>null\<close> is \<open>None\<close>. This is the shape
  of what a scraper's \<^verbatim>\<open>scrapeProduct\<close> returns and of the elements of the \<^verbatim>\<open>results\<close> array
  of \<^verbatim>\<open>mergeProductData\<close>.
\<close>

record ProductData =
  name :: string
  price :: "string option"
  rating :: "string option"
  features :: "string list option"
  description :: "string option"
  availability :: "string option"
  images :: "string list option"
  specifications :: "(string \<rightharpoonup> string) option"

text \<open>
  The object literal \<^verbatim>\<open>merged\<close> that \<^verbatim>\<open>mergeProductData\<close> builds and returns: all eight
  fields are present from the start.
\<close>

record Merged =
  merged_name :: string
  merged_price :: string
  merged_rating :: string
  merged_features :: "string list"
  merged_description :: string
  merged_availability :: string
  merged_images :: "string list"
  merged_specifications :: "string \<rightharpoonup> string"

text \<open>
  JavaScript truthiness of an optional string, as tested by \<^verbatim>\<open>result.price && ...\<close>:
  \<^verbatim>\<open>undefined\<close>, \<^verbatim>\<open>null\<close> and the empty string are falsy, every other string is truthy. An
  array or an object is truthy whenever it is present, so \<^verbatim>\<open>if (result.features)\<close> is a
  test for \<open>Some\<close>.
\<close>

definition truthy :: "string option \<Rightarrow> bool" where
  "truthy v = (case v of None \<Rightarrow> False | Some s \<Rightarrow> s \<noteq> [])"

text \<open>
  \<^verbatim>\<open>[...new Set(xs)]\<close>: a JavaScript \<^verbatim>\<open>Set\<close> keeps its elements in insertion order and
  ignores the insertion of a value it already holds (strings are compared by exact
  equality). \<open>Set_add\<close> is one insertion, \<open>new_Set\<close> builds the set from an array and
  spreads it back into an array.
\<close>

definition Set_add :: "string \<Rightarrow> string list \<Rightarrow> string list" where
  "Set_add x acc = (if x \<in> set acc then acc else acc @ [x])"

definition new_Set :: "string list \<Rightarrow> string list" where
  "new_Set xs = fold Set_add xs []"

section \<open>The top-level record merge\<close>

text \<open>
  \<^verbatim>\<open>if (result.price && !merged.price) merged.price = result.price\<close>, and the same
  statement for \<^verbatim>\<open>rating\<close>, \<^verbatim>\<open>description\<close> and \<^verbatim>\<open>availability\<close>: \<open>assign_if_unset v cur\<close>
  is the new value of the field of \<^verbatim>\<open>merged\<close> that holds \<open>cur\<close>, for the value \<open>v\<close> of the
  field of \<^verbatim>\<open>result\<close>. \<open>merge_step\<close> is
  one iteration of the \<^verbatim>\<open>for (const result of results)\<close> loop of \<^verbatim>\<open>mergeProductData\<close>.
  The seven statements of the body assign to seven different fields of \<^verbatim>\<open>merged\<close> and
  read only \<^verbatim>\<open>result\<close> and the field they assign, so they are one record update.
\<close>

definition assign_if_unset :: "string option \<Rightarrow> string \<Rightarrow> string" where
  "assign_if_unset v cur =
     (case v of None \<Rightarrow> cur | Some s \<Rightarrow> if s \<noteq> [] \<and> cur = [] then s else cur)"

definition merge_step :: "ProductData \<Rightarrow> Merged \<Rightarrow> Merged" where
  "merge_step result merged =
     merged
       \<lparr> merged_price := assign_if_unset (price result) (merged_price merged),
         merged_rating := assign_if_unset (rating result) (merged_rating merged),
         merged_description := assign_if_unset (description result) (merged_description merged),
         merged_availability := assign_if_unset (availability result) (merged_availability merged),
         merged_features :=
           (case features result of
              None \<Rightarrow> merged_features merged
            | Some fs \<Rightarrow> new_Set (merged_features merged @ fs)),
         merged_images :=
           (case images result of
              None \<Rightarrow> merged_images merged
            | Some is \<Rightarrow> new_Set (merged_images merged @ is)),
         merged_specifications :=
           (case specifications result of
              None \<Rightarrow> merged_specifications merged
            | Some sp \<Rightarrow> merged_specifications merged ++ sp) \<rparr>"

text \<open>The initial value of \<^verbatim>\<open>merged\<close>.\<close>

definition merged_init :: "string \<Rightarrow> Merged" where
  "merged_init productName =
     \<lparr> merged_name = productName, merged_price = [], merged_rating = [],
       merged_features = [], merged_description = [], merged_availability = [],
       merged_images = [], merged_specifications = Map.empty \<rparr>"

text \<open>
  \<^verbatim>\<open>mergeProductData(results, productName)\<close>: the loop runs over the array in order,
  starting from the initial \<^verbatim>\<open>merged\<close>. There is no \<^verbatim>\<open>throw\<close> in the function and no test
  of \<^verbatim>\<open>results.length\<close>: it returns \<^verbatim>\<open>merged\<close> for every array.
\<close>

definition mergeProductData :: "ProductData list \<Rightarrow> string \<Rightarrow> Merged" where
  "mergeProductData results productName = fold merge_step results (merged_init productName)"

section \<open>Reading the merged record against its inputs\<close>

text \<open>
  The value a field contributes when it is read for comparison with the merged record:
  an absent string reads as the empty string, an absent array as the empty array, absent
  specifications as the empty object. \<open>blank n\<close> is the record \<^verbatim>\<open>{ name: n }\<close>.
\<close>

definition str_or_empty :: "string option \<Rightarrow> string" where
  "str_or_empty v = (case v of None \<Rightarrow> [] | Some s \<Rightarrow> s)"

definition array_of :: "string list option \<Rightarrow> string list" where
  "array_of v = (case v of None \<Rightarrow> [] | Some xs \<Rightarrow> xs)"

definition specs_of :: "ProductData \<Rightarrow> (string \<rightharpoonup> string)" where
  "specs_of r = (case specifications r of None \<Rightarrow> Map.empty | Some sp \<Rightarrow> sp)"

definition blank :: "string \<Rightarrow> ProductData" where
  "blank n = \<lparr> name = n, price = None, rating = None, features = None, description = None,
       availability = None, images = None, specifications = None \<rparr>"

text \<open>
  The union of an array in first-seen order, stated without reference to the algorithm:
  the elements of \<open>xs\<close> at exactly those positions where the element has not occurred
  before, in the order of the positions.
\<close>

definition first_occurrences :: "string list \<Rightarrow> string list" where
  "first_occurrences xs =
     map (\<lambda>i. xs ! i) (filter (\<lambda>i. xs ! i \<notin> set (take i xs)) [0..<length xs])"

section \<open>The logger, as a value\<close>

text \<open>
  \<^verbatim>\<open>interface LogEntry\<close> and \<^verbatim>\<open>class MaximLogger\<close>. The metadata of an entry is a
  \<^verbatim>\<open>Record<string, any>\<close>; the values the request handler stores there are strings, numbers
  and arrays of strings. In this section the logger is the value of its two private
  fields; the array \<^verbatim>\<open>this.logs\<close> as an object with an identity is the subject of the
  section on the object store.
\<close>

datatype Level = INFO | WARN | ERROR

datatype meta_value = Str string | Num nat | Strs "string list"

type_synonym metadata = "(string \<times> meta_value) list"

record LogEntry =
  timestamp :: string
  level :: Level
  message :: string
  source :: string
  metadata :: "metadata option"

record MaximLogger =
  logs :: "LogEntry list"
  logger_source :: string

text \<open>
  The system clock: \<open>now k\<close> is what \<^verbatim>\<open>new Date().toISOString()\<close> returns when the entry
  at position \<open>k\<close> of the log is created. Every claim below holds for every clock.
\<close>

type_synonym clock = "nat \<Rightarrow> string"

text \<open>
  \<^verbatim>\<open>addLog\<close> builds the entry and pushes it. The body stands in a \<^verbatim>\<open>try\<close> whose \<^verbatim>\<open>catch\<close> only
  writes to the console; nothing in the body raises on a string message, and console
  output is not part of the model.
\<close>

definition addLog :: "clock \<Rightarrow> Level \<Rightarrow> string \<Rightarrow> metadata option \<Rightarrow> MaximLogger \<Rightarrow> MaximLogger" where
  "addLog now lv msg md this =
     this \<lparr> logs := logs this @
       [\<lparr> timestamp = now (length (logs this)), level = lv, message = msg,
          source = logger_source this, metadata = md \<rparr>] \<rparr>"

definition info :: "clock \<Rightarrow> string \<Rightarrow> metadata option \<Rightarrow> MaximLogger \<Rightarrow> MaximLogger" where
  "info now msg md this = addLog now INFO msg md this"

definition warn :: "clock \<Rightarrow> string \<Rightarrow> metadata option \<Rightarrow> MaximLogger \<Rightarrow> MaximLogger" where
  "warn now msg md this = addLog now WARN msg md this"

definition error :: "clock \<Rightarrow> string \<Rightarrow> metadata option \<Rightarrow> MaximLogger \<Rightarrow> MaximLogger" where
  "error now msg md this = addLog now ERROR msg md this"

text \<open>\<^verbatim>\<open>new MaximLogger()\<close> with the default source, and the content \<^verbatim>\<open>getLogs\<close> returns.\<close>

definition new_MaximLogger :: MaximLogger where
  "new_MaximLogger = \<lparr> logs = [], logger_source = ''ProductComparisonAgent'' \<rparr>"

definition getLogs :: "MaximLogger \<Rightarrow> LogEntry list" where
  "getLogs this = logs this"

section \<open>String operations of the fallback synthesizer\<close>

text \<open>
  \<^verbatim>\<open>toLowerCase\<close> on the letters \<^verbatim>\<open>A\<close> to \<^verbatim>\<open>Z\<close> (a \<open>char\<close> is a byte; other characters are
  left as they are), \<^verbatim>\<open>includes\<close> as the search for a contiguous substring, and the test
  \<^verbatim>\<open>isPhone\<close> of \<^verbatim>\<open>createIntelligentFallback\<close>.
\<close>

definition toLowerCase_char :: "char \<Rightarrow> char" where
  "toLowerCase_char c =
     (case map_of (zip ''ABCDEFGHIJKLMNOPQRSTUVWXYZ'' ''abcdefghijklmnopqrstuvwxyz'') c of
        None \<Rightarrow> c | Some l \<Rightarrow> l)"

definition toLowerCase :: "string \<Rightarrow> string" where
  "toLowerCase s = map toLowerCase_char s"

fun startsWith :: "string \<Rightarrow> string \<Rightarrow> bool" where
  "startsWith s [] = True"
| "startsWith [] (p # ps) = False"
| "startsWith (c # cs) (p # ps) = (c = p \<and> startsWith cs ps)"

fun str_includes :: "string \<Rightarrow> string \<Rightarrow> bool" where
  "str_includes [] sub = (sub = [])"
| "str_includes (c # cs) sub = (startsWith (c # cs) sub \<or> str_includes cs sub)"

definition isPhone :: "string \<Rightarrow> bool" where
  "isPhone productName =
     (str_includes (toLowerCase productName) ''phone'' \<or>
      str_includes (toLowerCase productName) ''iphone'' \<or>
      str_includes (toLowerCase productName) ''galaxy'')"

text \<open>
  Numbers in template strings. \<open>string_of_int\<close> is the decimal rendering of an integer.
  \<open>toFixed1 x\<close> is \<^verbatim>\<open>x.toFixed(1)\<close>: with \<open>n\<close> the integer nearest to \<open>10 * x\<close> (the larger
  one on a tie), the digits of \<open>n div 10\<close>, a point, and the digit \<open>n mod 10\<close>. The numbers
  are exact rationals here; the rounding of double arithmetic is not modelled, and no
  statement below depends on which digits come out, only on their form.
\<close>

definition digit_char :: "nat \<Rightarrow> char" where
  "digit_char d = ''0123456789'' ! d"

fun string_of_nat :: "nat \<Rightarrow> string" where
  "string_of_nat n =
     (if n < 10 then [digit_char n] else string_of_nat (n div 10) @ [digit_char (n mod 10)])"

definition string_of_int :: "int \<Rightarrow> string" where
  "string_of_int i =
     (if i < 0 then CHR ''-'' # string_of_nat (nat (- i)) else string_of_nat (nat i))"

definition toFixed1 :: "rat \<Rightarrow> string" where
  "toFixed1 x =
     (if x < 0 then
        CHR ''-'' # (let n = nat \<lfloor>(- x) * 10 + 1 / 2\<rfloor>
                    in string_of_nat (n div 10) @ ''.'' @ string_of_nat (n mod 10))
      else (let n = nat \<lfloor>x * 10 + 1 / 2\<rfloor>
            in string_of_nat (n div 10) @ ''.'' @ string_of_nat (n mod 10)))"

text \<open>
  \<^verbatim>\<open>trim\<close> removes leading and trailing white space (the white space characters among the
  bytes below 128).
\<close>

definition is_space :: "char \<Rightarrow> bool" where
  "is_space c = (c \<in> set [CHR 0x09, CHR 0x0A, CHR 0x0B, CHR 0x0C, CHR 0x0D, CHR 0x20])"

definition trim :: "string \<Rightarrow> string" where
  "trim s = rev (dropWhile is_space (rev (dropWhile is_space s)))"

section \<open>The fallback synthesizer\<close>

text \<open>
  \<^verbatim>\<open>createIntelligentFallback(productName)\<close>. \<open>Math_random i\<close> is the value of the \<open>i\<close>-th call
  of \<^verbatim>\<open>Math.random()\<close> during the call (the price is computed first, then the rating); the
  generic branch draws no random number. Neither branch sets \<^verbatim>\<open>images\<close>.
\<close>

definition createIntelligentFallback :: "(nat \<Rightarrow> rat) \<Rightarrow> string \<Rightarrow> ProductData" where
  "createIntelligentFallback Math_random productName =
     (if isPhone productName then
        \<lparr> name = productName,
          price = Some (''$'' @ string_of_int \<lfloor>Math_random 0 * 800 + 400\<rfloor> @ ''.99''),
          rating = Some (toFixed1 (Math_random 1 * (3 / 2) + 7 / 2) @ ''/5 (estimated)''),
          features = Some [''Smartphone capabilities'', ''Camera system'', ''Wireless connectivity'',
            ''Touchscreen interface'', ''App ecosystem''],
          description =
            Some (productName @ '' - intelligent analysis when direct scraping is unavailable.''),
          availability = Some ''Check with retailers'',
          images = None,
          specifications = Some [''Type'' \<mapsto> ''Smartphone'', ''Category'' \<mapsto> ''Mobile Device'',
            ''Data Source'' \<mapsto> ''Intelligent estimation''] \<rparr>
      else
        \<lparr> name = productName,
          price = Some ''Price varies'',
          rating = Some ''Rating varies'',
          features = Some [''Product features available'', ''Check retailer for details''],
          description =
            Some (productName @ '' - intelligent analysis when direct scraping is unavailable.''),
          availability = Some ''Check availability'',
          images = None,
          specifications = Some [''Product'' \<mapsto> productName,
            ''Data Source'' \<mapsto> ''Intelligent estimation''] \<rparr>)"

section \<open>Strategies and the aggregation\<close>

text \<open>
  A thrown value is an \<^verbatim>\<open>Error\<close> with its message or some other value;
  \<open>error_message\<close> is \<^verbatim>\<open>error instanceof Error ? error.message : "Unknown error"\<close>.

  A scraper is an object with a class name and the method \<^verbatim>\<open>scrapeProduct\<close>. A call of
  \<^verbatim>\<open>scrapeProduct\<close> is taken to complete: it returns a record (\<open>Inr\<close>) or throws (\<open>Inl\<close>).
  The scrapers of the repository reach the shared logger only through \<^verbatim>\<open>info\<close>, \<^verbatim>\<open>warn\<close> and
  \<^verbatim>\<open>error\<close>, so a call also yields the list of the log calls it made, in order; its outcome
  may depend on the product name and on the state of the logger at the call, which
  differs from call to call.
\<close>

datatype thrown = Error string | Thrown_value

definition error_message :: "thrown \<Rightarrow> string" where
  "error_message e = (case e of Error m \<Rightarrow> m | Thrown_value \<Rightarrow> ''Unknown error'')"

type_synonym outcome = "thrown + ProductData"

type_synonym log_call = "Level \<times> string \<times> metadata option"

record Scraper =
  constructor_name :: string
  scrapeProduct :: "string \<Rightarrow> MaximLogger \<Rightarrow> outcome \<times> log_call list"

definition log_calls :: "clock \<Rightarrow> log_call list \<Rightarrow> MaximLogger \<Rightarrow> MaximLogger" where
  "log_calls now calls this = fold (\<lambda>(lv, msg, md). addLog now lv msg md) calls this"

text \<open>
  The state the aggregation runs in: the module-level logger, and a trace of the
  strategy invocations made so far (class name, product name, outcome). The trace is not
  a variable of the program; it records which calls of \<^verbatim>\<open>scrapeProduct\<close> happened.
\<close>

record world =
  logger :: MaximLogger
  invocations :: "(string \<times> string \<times> outcome) list"

text \<open>
  One iteration of the loop of \<^verbatim>\<open>scrapeProductDataWithFallback\<close>. In the \<^verbatim>\<open>try\<close> block only
  the call of \<^verbatim>\<open>scrapeProduct\<close> can throw; the \<^verbatim>\<open>catch\<close> block logs a warning and lets the
  loop go on.
\<close>

definition run_scraper ::
  "clock \<Rightarrow> string \<Rightarrow> Scraper \<Rightarrow> ProductData list \<times> world \<Rightarrow> ProductData list \<times> world" where
  "run_scraper now productName scraper st =
     (case st of (results, w) \<Rightarrow>
       let lg1 = info now (''Starting intelligent '' @ constructor_name scraper @ '' for ''
                     @ productName) None (logger w);
           (out, calls) = scrapeProduct scraper productName lg1;
           lg2 = log_calls now calls lg1;
           inv = invocations w @ [(constructor_name scraper, productName, out)]
       in case out of
            Inr data \<Rightarrow>
              (results @ [data],
               \<lparr> logger = info now (''Intelligent '' @ constructor_name scraper
                            @ '' completed for '' @ productName) None lg2,
                 invocations = inv \<rparr>)
          | Inl err \<Rightarrow>
              (results,
               \<lparr> logger = warn now (''Scraper '' @ constructor_name scraper
                            @ '' had issues, but provided fallback data'')
                            (Some [(''product'', Str productName),
                                   (''error'', Str (error_message err))]) lg2,
                 invocations = inv \<rparr>))"

text \<open>
  \<^verbatim>\<open>scrapeProductDataWithFallback(productName, scrapers)\<close>: the loop over the scrapers, the
  fallback record when no scraper returned one, and the merge. The function has no
  \<^verbatim>\<open>throw\<close> and calls nothing that throws outside the \<^verbatim>\<open>try\<close> block.
\<close>

definition scrapeProductDataWithFallback ::
  "clock \<Rightarrow> (nat \<Rightarrow> rat) \<Rightarrow> string \<Rightarrow> Scraper list \<Rightarrow> world \<Rightarrow> Merged \<times> world" where
  "scrapeProductDataWithFallback now Math_random productName scrapers w =
     (case fold (run_scraper now productName) scrapers ([], w) of (results, w1) \<Rightarrow>
        if length results = 0 then
          (mergeProductData [createIntelligentFallback Math_random productName] productName,
           w1 \<lparr> logger := info now (''Creating intelligent fallback data for '' @ productName)
                            None (logger w1) \<rparr>)
        else (mergeProductData results productName, w1))"

text \<open>
  The first statements of \<^verbatim>\<open>ScrapybaraBrowser.scrapeProduct\<close>: the start is logged, a product
  name that is empty or blank makes the method throw \<^verbatim>\<open>Error("Product name is required")\<close>,
  which its own \<^verbatim>\<open>catch\<close> logs and throws again. \<open>session\<close> stands for the rest of the body
  (the AI session), which runs for every other name. The other scrapers begin with the
  same test.
\<close>

definition ScrapybaraBrowser_scrapeProduct ::
  "(string \<Rightarrow> MaximLogger \<Rightarrow> outcome \<times> log_call list) \<Rightarrow> string \<Rightarrow> MaximLogger
     \<Rightarrow> outcome \<times> log_call list" where
  "ScrapybaraBrowser_scrapeProduct session productName lg =
     (let start = (INFO, ''ScrapybaraBrowser: Starting AI-powered product scrape'',
                   Some [(''product'', Str productName)])
      in if productName = [] \<or> length (trim productName) = 0 then
           (Inl (Error ''Product name is required''),
            [start,
             (ERROR, ''ScrapybaraBrowser: AI scrape failed'',
              Some [(''product'', Str productName), (''error'', Str ''Product name is required'')])])
         else (case session productName lg of (out, calls) \<Rightarrow> (out, start # calls)))"

section \<open>The request handler\<close>

text \<open>
  The parsed body of the request, the environment of the handler and its responses.
  \<open>BadRequest\<close> is status 400 with the error message, \<open>NotConfigured\<close> the status 500 for a
  missing API key (error and setup texts), \<open>Ok\<close> status 200, and \<open>Failed\<close> the status 500 of
  the outer \<^verbatim>\<open>catch\<close> (error, details, logs). The environment holds the API key, the
  \<^verbatim>\<open>scrapeProduct\<close> methods of the three scraper classes, the text generation behind
  \<^verbatim>\<open>generateComparison\<close> and \<^verbatim>\<open>generateReadme\<close>, the clock, and the random numbers drawn
  during the first and the second aggregation.
\<close>

record request_body =
  product1 :: "string option"
  product2 :: "string option"
  methods :: "string list option"

record ComparisonResult =
  product1Data :: Merged
  product2Data :: Merged
  comparison :: string
  readme :: string
  result_logs :: "LogEntry list"

datatype response =
    is_BadRequest: BadRequest string
  | is_NotConfigured: NotConfigured string string
  | is_Ok: Ok ComparisonResult
  | is_Failed: Failed string string "LogEntry list"

record env =
  OPENAI_API_KEY :: "string option"
  ScrapybaraBrowser :: "string \<Rightarrow> MaximLogger \<Rightarrow> outcome \<times> log_call list"
  RealPlaywrightScraper :: "string \<Rightarrow> MaximLogger \<Rightarrow> outcome \<times> log_call list"
  RealPuppeteerScraper :: "string \<Rightarrow> MaximLogger \<Rightarrow> outcome \<times> log_call list"
  comparison_text :: "Merged \<Rightarrow> Merged \<Rightarrow> thrown + string"
  readme_text :: "Merged \<Rightarrow> Merged \<Rightarrow> string \<Rightarrow> thrown + string"
  Date_now :: clock
  Math_random1 :: "nat \<Rightarrow> rat"
  Math_random2 :: "nat \<Rightarrow> rat"

definition generateComparison ::
  "env \<Rightarrow> Merged \<Rightarrow> Merged \<Rightarrow> MaximLogger \<Rightarrow> string \<times> MaximLogger" where
  "generateComparison e p1 p2 lg =
     (case comparison_text e p1 p2 of
        Inr text \<Rightarrow> (text, lg)
      | Inl err \<Rightarrow>
          (''Comparison generation failed. Please try again.'',
           error (Date_now e) ''Failed to generate comparison''
             (Some [(''error'', Str (error_message err))]) lg))"

definition generateReadme ::
  "env \<Rightarrow> Merged \<Rightarrow> Merged \<Rightarrow> string \<Rightarrow> MaximLogger \<Rightarrow> string \<times> MaximLogger" where
  "generateReadme e p1 p2 cmp lg =
     (case readme_text e p1 p2 cmp of
        Inr text \<Rightarrow> (text, lg)
      | Inl err \<Rightarrow>
          (''# Product Comparison: '' @ merged_name p1 @ '' vs '' @ merged_name p2
             @ [CHR 0x0A, CHR 0x0A] @ ''README generation failed. Please try again.'',
           error (Date_now e) ''Failed to generate README''
             (Some [(''error'', Str (error_message err))]) lg))"

text \<open>The array \<^verbatim>\<open>scrapers\<close>: one object per selected method, in the order of the three tests.\<close>

definition select_scrapers :: "env \<Rightarrow> string list \<Rightarrow> Scraper list" where
  "select_scrapers e ms =
     (if ''scrapybara'' \<in> set ms
      then [\<lparr> constructor_name = ''ScrapybaraBrowser'', scrapeProduct = ScrapybaraBrowser e \<rparr>]
      else [])
     @ (if ''playwright'' \<in> set ms
      then [\<lparr> constructor_name = ''RealPlaywrightScraper'', scrapeProduct = RealPlaywrightScraper e \<rparr>]
      else [])
     @ (if ''puppeteer'' \<in> set ms
      then [\<lparr> constructor_name = ''RealPuppeteerScraper'', scrapeProduct = RealPuppeteerScraper e \<rparr>]
      else [])"

text \<open>The outer \<^verbatim>\<open>catch\<close> of the handler.\<close>

definition catch_all :: "env \<Rightarrow> thrown \<Rightarrow> world \<Rightarrow> response \<times> world" where
  "catch_all e err w =
     (let lg = error (Date_now e) ''Error in product comparison''
                 (Some [(''error'', Str (error_message err))]) (logger w)
      in (Failed ''Failed to compare products. Check logs for details.'' (error_message err)
            (getLogs lg),
          w \<lparr> logger := lg \<rparr>))"

text \<open>
  \<^verbatim>\<open>POST(request)\<close>. The tests \<^verbatim>\<open>!product1 || !product2\<close> are tests of truthiness: a name of
  blanks only is truthy. A body without a \<^verbatim>\<open>methods\<close> array makes \<^verbatim>\<open>methods.includes\<close> raise
  a \<^verbatim>\<open>TypeError\<close>, which the outer \<^verbatim>\<open>catch\<close> answers.
\<close>

definition POST :: "env \<Rightarrow> request_body \<Rightarrow> world \<Rightarrow> response \<times> world" where
  "POST e body w =
     (if \<not> truthy (product1 body) \<or> \<not> truthy (product2 body) then
        (BadRequest ''Both product names are required'', w)
      else if \<not> truthy (OPENAI_API_KEY e) then
        (NotConfigured
           ''OpenAI API key not configured. Please add OPENAI_API_KEY to your .env file.''
           ''Create a .env file in your project root and add: OPENAI_API_KEY=your_key_here'',
         w \<lparr> logger := error (Date_now e) ''OpenAI API key not configured'' None (logger w) \<rparr>)
      else
        let p1 = str_or_empty (product1 body);
            p2 = str_or_empty (product2 body);
            w0 = w \<lparr> logger := info (Date_now e)
                   ''Starting product comparison with intelligent browser automation''
                   (Some ([(''product1'', Str p1), (''product2'', Str p2)]
                          @ (case methods body of None \<Rightarrow> []
                             | Some ms \<Rightarrow> [(''methods'', Strs ms)])))
                   (logger w) \<rparr>
        in case methods body of
             None \<Rightarrow>
               catch_all e
                 (Error (''Cannot read properties of undefined (reading '' @ [CHR 0x27]
                    @ ''includes'' @ [CHR 0x27] @ '')'')) w0
           | Some ms \<Rightarrow>
               let scrapers = select_scrapers e ms in
               if length scrapers = 0 then
                 (BadRequest ''No valid scraping methods selected'', w0)
               else
                 let (d1, w1) = scrapeProductDataWithFallback (Date_now e) (Math_random1 e) p1
                                  scrapers w0;
                     (d2, w2) = scrapeProductDataWithFallback (Date_now e) (Math_random2 e) p2
                                  scrapers w1;
                     lg3 = info (Date_now e) ''Intelligent browser automation completed''
                             (Some [(''product1Features'', Num (length (merged_features d1))),
                                    (''product2Features'', Num (length (merged_features d2)))])
                             (logger w2);
                     (cmp, lg4) = generateComparison e d1 d2 lg3;
                     (rdm, lg5) = generateReadme e d1 d2 cmp lg4;
                     result = \<lparr> product1Data = d1, product2Data = d2, comparison = cmp,
                                readme = rdm, result_logs = getLogs lg5 \<rparr>
                 in (Ok result,
                     w2 \<lparr> logger := info (Date_now e) ''Product comparison completed successfully''
                                      None lg5 \<rparr>))"

section \<open>Reading a run of the aggregation\<close>

text \<open>
  The invocations and the log entries a run has added to a world, the records of the
  invocations that returned, the invocations that threw, and the warning the \<^verbatim>\<open>catch\<close>
  block of the aggregation writes for a thrown failure.
\<close>

definition new_invocations :: "world \<Rightarrow> world \<Rightarrow> (string \<times> string \<times> outcome) list" where
  "new_invocations w w' = drop (length (invocations w)) (invocations w')"

definition new_logs :: "world \<Rightarrow> world \<Rightarrow> LogEntry list" where
  "new_logs w w' = drop (length (logs (logger w))) (logs (logger w'))"

definition successes :: "(string \<times> string \<times> outcome) list \<Rightarrow> ProductData list" where
  "successes tr = concat (map (\<lambda>(c, p, out). case out of Inl _ \<Rightarrow> [] | Inr d \<Rightarrow> [d]) tr)"

definition failures ::
  "(string \<times> string \<times> outcome) list \<Rightarrow> (string \<times> string \<times> thrown) list" where
  "failures tr = concat (map (\<lambda>(c, p, out). case out of Inl e \<Rightarrow> [(c, p, e)] | Inr _ \<Rightarrow> []) tr)"

definition absorbed_warning :: "string \<times> string \<times> thrown \<Rightarrow> LogEntry \<Rightarrow> bool" where
  "absorbed_warning f x =
     (case f of (c, p, e) \<Rightarrow>
        level x = WARN \<and>
        message x = ''Scraper '' @ c @ '' had issues, but provided fallback data'' \<and>
        metadata x = Some [(''product'', Str p), (''error'', Str (error_message e))])"

text \<open>
  The form \<^verbatim>\<open><number>/5...\<close> of a rating, as the data model of the specification words
  it: a non-empty run of digits, optionally a point and a non-empty run of digits, then
  \<^verbatim>\<open>/5\<close>, then anything.
\<close>

definition is_digit :: "char \<Rightarrow> bool" where
  "is_digit c = (c \<in> set ''0123456789'')"

definition matches_rating_pattern :: "string \<Rightarrow> bool" where
  "matches_rating_pattern s =
     (let int_part = takeWhile is_digit s;
          r = dropWhile is_digit s;
          r' = (case r of [] \<Rightarrow> r
                | c # cs \<Rightarrow> if c = CHR ''.'' \<and> takeWhile is_digit cs \<noteq> []
                            then dropWhile is_digit cs else r)
      in int_part \<noteq> [] \<and> take 2 r' = ''/5'')"

section \<open>Sample inputs\<close>

text \<open>
  Concrete inputs for the instances below: a clock, a scraper whose every call times out
  (after logging the failure itself, as the scrapers of the repository do), a scraper
  body that returns a record with a placeholder rating, an environment and the world of
  a fresh process.
\<close>

definition sample_clock :: clock where
  "sample_clock n = ''t'' @ string_of_nat n"

definition timing_out :: Scraper where
  "timing_out = \<lparr> constructor_name = ''TimingOut'',
      scrapeProduct =
        (\<lambda>n lg. (Inl (Error ''timeout''), [(ERROR, ''TimingOut: Scrape failed'', None)])) \<rparr>"

definition sample_session :: "string \<Rightarrow> MaximLogger \<Rightarrow> outcome \<times> log_call list" where
  "sample_session n lg = (Inr ((blank n) \<lparr> rating := Some ''Rating analysis in progress'' \<rparr>), [])"

definition sample_env :: env where
  "sample_env =
     \<lparr> OPENAI_API_KEY = Some ''sk-test'',
       ScrapybaraBrowser = ScrapybaraBrowser_scrapeProduct sample_session,
       RealPlaywrightScraper = sample_session,
       RealPuppeteerScraper = sample_session,
       comparison_text = (\<lambda>p1 p2. Inr ''comparison''),
       readme_text = (\<lambda>p1 p2 c. Inr ''readme''),
       Date_now = sample_clock,
       Math_random1 = (\<lambda>i. 0),
       Math_random2 = (\<lambda>i. 1 / 2) \<rparr>"

definition fresh_world :: world where
  "fresh_world = \<lparr> logger = new_MaximLogger, invocations = [] \<rparr>"

section \<open>The object store\<close>

text \<open>
  Arrays and objects of the program have an identity: two variables can hold the same
  array, and a mutation through one is seen through the other. For the claims about
  copies and about inputs left untouched, the arrays and objects live in a store: a cell
  per array or object, at an address, and \<open>next_ref\<close> as the next address the allocator
  hands out. Strings and numbers are values. A product record and the merged record hold
  their scalar fields as values and their arrays and their specifications object as
  addresses.
\<close>

record ProductObj =
  obj_name :: string
  obj_price :: "string option"
  obj_rating :: "string option"
  obj_features :: "nat option"
  obj_description :: "string option"
  obj_availability :: "string option"
  obj_images :: "nat option"
  obj_specifications :: "nat option"

record MergedObj =
  mobj_name :: string
  mobj_price :: string
  mobj_rating :: string
  mobj_features :: nat
  mobj_description :: string
  mobj_availability :: string
  mobj_images :: nat
  mobj_specifications :: nat

datatype cell =
    Strings "string list"
  | Refs "nat list"
  | Dict "string \<rightharpoonup> string"
  | Product ProductObj
  | MergedCell MergedObj
  | Entry LogEntry

record heap =
  cells :: "nat \<rightharpoonup> cell"
  next_ref :: nat

text \<open>
  Allocation of a new array or object, and assignment to the cell at an address.
\<close>

definition alloc :: "cell \<Rightarrow> heap \<Rightarrow> nat \<times> heap" where
  "alloc c h = (next_ref h, h \<lparr> cells := (cells h)(next_ref h \<mapsto> c), next_ref := Suc (next_ref h) \<rparr>)"

definition heap_write :: "nat \<Rightarrow> cell \<Rightarrow> heap \<Rightarrow> heap" where
  "heap_write a c h = h \<lparr> cells := (cells h)(a \<mapsto> c) \<rparr>"

text \<open>
  Reading through an address. The program holds only addresses of cells it has
  allocated, each of the kind it expects; the readers return an empty value elsewhere,
  and the statements below are about stores in which that does not happen.
\<close>

definition strings_at :: "heap \<Rightarrow> nat \<Rightarrow> string list" where
  "strings_at h a = (case cells h a of Some (Strings xs) \<Rightarrow> xs | _ \<Rightarrow> [])"

definition refs_at :: "heap \<Rightarrow> nat \<Rightarrow> nat list" where
  "refs_at h a = (case cells h a of Some (Refs rs) \<Rightarrow> rs | _ \<Rightarrow> [])"

definition dict_at :: "heap \<Rightarrow> nat \<Rightarrow> (string \<rightharpoonup> string)" where
  "dict_at h a = (case cells h a of Some (Dict d) \<Rightarrow> d | _ \<Rightarrow> Map.empty)"

definition entry_at :: "heap \<Rightarrow> nat \<Rightarrow> LogEntry option" where
  "entry_at h a = (case cells h a of Some (Entry e) \<Rightarrow> Some e | _ \<Rightarrow> None)"

subsection \<open>The logger as an object\<close>

text \<open>
  The logger object holds the address of its array \<^verbatim>\<open>this.logs\<close>; the array holds the
  addresses of the entry objects. \<open>log_content\<close> reads the entries of an array of
  entries.
\<close>

record MaximLogger_obj =
  this_logs :: nat
  this_source :: string

definition log_content :: "heap \<Rightarrow> nat \<Rightarrow> LogEntry list" where
  "log_content h a = List.map_filter (entry_at h) (refs_at h a)"

text \<open>
  The constructor allocates the empty array. \<^verbatim>\<open>addLog\<close> allocates the entry and pushes its
  address onto \<^verbatim>\<open>this.logs\<close> in place. \<^verbatim>\<open>getLogs\<close> returns \<^verbatim>\<open>[...this.logs]\<close>, a new array with
  the same elements. \<^verbatim>\<open>clearLogs\<close> points \<^verbatim>\<open>this.logs\<close> to a new empty array.
  \<^verbatim>\<open>getLogsByLevel\<close> returns the new array that \<^verbatim>\<open>filter\<close> builds.
\<close>

definition obj_new_MaximLogger :: "string \<Rightarrow> heap \<Rightarrow> MaximLogger_obj \<times> heap" where
  "obj_new_MaximLogger src h =
     (case alloc (Refs []) h of (a, h1) \<Rightarrow> (\<lparr> this_logs = a, this_source = src \<rparr>, h1))"

definition obj_addLog ::
  "clock \<Rightarrow> Level \<Rightarrow> string \<Rightarrow> metadata option \<Rightarrow> MaximLogger_obj \<Rightarrow> heap \<Rightarrow> heap" where
  "obj_addLog now lv msg md this h =
     (case alloc (Entry \<lparr> timestamp = now (length (refs_at h (this_logs this))), level = lv,
                          message = msg, source = this_source this, metadata = md \<rparr>) h
      of (e, h1) \<Rightarrow> heap_write (this_logs this) (Refs (refs_at h1 (this_logs this) @ [e])) h1)"

definition obj_getLogs :: "MaximLogger_obj \<Rightarrow> heap \<Rightarrow> nat \<times> heap" where
  "obj_getLogs this h = alloc (Refs (refs_at h (this_logs this))) h"

definition obj_clearLogs :: "MaximLogger_obj \<Rightarrow> heap \<Rightarrow> MaximLogger_obj \<times> heap" where
  "obj_clearLogs this h =
     (case alloc (Refs []) h of (a, h1) \<Rightarrow> (this \<lparr> this_logs := a \<rparr>, h1))"

definition obj_getLogsByLevel :: "Level \<Rightarrow> MaximLogger_obj \<Rightarrow> heap \<Rightarrow> nat \<times> heap" where
  "obj_getLogsByLevel lv this h =
     alloc (Refs (filter (\<lambda>r. case entry_at h r of None \<Rightarrow> False | Some e \<Rightarrow> level e = lv)
                    (refs_at h (this_logs this)))) h"

text \<open>
  \<^verbatim>\<open>getLogsSummary\<close>: the counts and the time range. \<^verbatim>\<open>this.logs[0]?.timestamp || null\<close> is
  \<^verbatim>\<open>null\<close> for an empty array and for an empty timestamp.
\<close>

record LogsSummary =
  total :: nat
  info_count :: nat
  warn_count :: nat
  error_count :: nat
  timeRange_start :: "string option"
  timeRange_end :: "string option"

definition timestamp_or_null :: "LogEntry option \<Rightarrow> string option" where
  "timestamp_or_null e =
     (case e of None \<Rightarrow> None | Some x \<Rightarrow> if timestamp x = [] then None else Some (timestamp x))"

definition summary_of :: "LogEntry list \<Rightarrow> LogsSummary" where
  "summary_of es =
     \<lparr> total = length es,
       info_count = length (filter (\<lambda>log. level log = INFO) es),
       warn_count = length (filter (\<lambda>log. level log = WARN) es),
       error_count = length (filter (\<lambda>log. level log = ERROR) es),
       timeRange_start = timestamp_or_null (case es of [] \<Rightarrow> None | e # _ \<Rightarrow> Some e),
       timeRange_end = timestamp_or_null (if es = [] then None else Some (last es)) \<rparr>"

definition obj_getLogsSummary :: "MaximLogger_obj \<Rightarrow> heap \<Rightarrow> LogsSummary" where
  "obj_getLogsSummary this h = summary_of (log_content h (this_logs this))"

text \<open>
  The states of a logger: its array is allocated and holds addresses of allocated
  entries. The constructor establishes this and \<^verbatim>\<open>addLog\<close> and \<^verbatim>\<open>getLogs\<close> keep it
  (\<open>obj_new_MaximLogger_ok\<close>, \<open>obj_addLog_ok\<close>, \<open>obj_getLogs_refines\<close> below). \<open>abs_logger\<close>
  is the logger as a value, as the request handler sees it.
\<close>

definition logger_ok :: "MaximLogger_obj \<Rightarrow> heap \<Rightarrow> bool" where
  "logger_ok this h =
     (this_logs this < next_ref h \<and>
      (case cells h (this_logs this) of
         Some (Refs rs) \<Rightarrow> list_all (\<lambda>r. r < next_ref h \<and> entry_at h r \<noteq> None) rs
       | _ \<Rightarrow> False))"

definition abs_logger :: "MaximLogger_obj \<Rightarrow> heap \<Rightarrow> MaximLogger" where
  "abs_logger this h = \<lparr> logs = log_content h (this_logs this), logger_source = this_source this \<rparr>"

subsection \<open>The record merge on the store\<close>

text \<open>
  Reading a product record and the merged record out of the store, as the values of
  the first sections.
\<close>

definition product_at :: "heap \<Rightarrow> nat \<Rightarrow> ProductObj option" where
  "product_at h r = (case cells h r of Some (Product p) \<Rightarrow> Some p | _ \<Rightarrow> None)"

definition merged_at :: "heap \<Rightarrow> nat \<Rightarrow> MergedObj" where
  "merged_at h m =
     (case cells h m of Some (MergedCell mg) \<Rightarrow> mg
      | _ \<Rightarrow> \<lparr> mobj_name = [], mobj_price = [], mobj_rating = [], mobj_features = m,
               mobj_description = [], mobj_availability = [], mobj_images = m,
               mobj_specifications = m \<rparr>)"

definition read_product :: "heap \<Rightarrow> nat \<Rightarrow> ProductData" where
  "read_product h r =
     (case product_at h r of
        None \<Rightarrow> blank []
      | Some p \<Rightarrow>
          \<lparr> name = obj_name p, price = obj_price p, rating = obj_rating p,
            features = map_option (strings_at h) (obj_features p),
            description = obj_description p, availability = obj_availability p,
            images = map_option (strings_at h) (obj_images p),
            specifications = map_option (dict_at h) (obj_specifications p) \<rparr>)"

definition read_merged :: "heap \<Rightarrow> nat \<Rightarrow> Merged" where
  "read_merged h m =
     (let mg = merged_at h m in
      \<lparr> merged_name = mobj_name mg, merged_price = mobj_price mg, merged_rating = mobj_rating mg,
        merged_features = strings_at h (mobj_features mg),
        merged_description = mobj_description mg, merged_availability = mobj_availability mg,
        merged_images = strings_at h (mobj_images mg),
        merged_specifications = dict_at h (mobj_specifications mg) \<rparr>)"

text \<open>
  The statements of the loop body of \<^verbatim>\<open>mergeProductData\<close>, for the merged object at
  address \<open>m\<close> and the record at address \<open>r\<close>: the four conditional assignments of
  strings, and the three assignments of a newly built array or object to a field of
  \<^verbatim>\<open>merged\<close>. The temporary array and the \<^verbatim>\<open>Set\<close> inside
  \<^verbatim>\<open>[...new Set([...merged.features, ...result.features])]\<close> are dropped at once and are not
  cells of the model.
\<close>

definition set_merged :: "nat \<Rightarrow> (MergedObj \<Rightarrow> MergedObj) \<Rightarrow> heap \<Rightarrow> heap" where
  "set_merged m f h = heap_write m (MergedCell (f (merged_at h m))) h"

definition assign_scalars :: "nat \<Rightarrow> nat \<Rightarrow> heap \<Rightarrow> heap" where
  "assign_scalars m r h =
     (case product_at h r of
        None \<Rightarrow> h
      | Some result \<Rightarrow>
          set_merged m (\<lambda>mg. mg
            \<lparr> mobj_price := assign_if_unset (obj_price result) (mobj_price mg),
              mobj_rating := assign_if_unset (obj_rating result) (mobj_rating mg),
              mobj_description := assign_if_unset (obj_description result) (mobj_description mg),
              mobj_availability := assign_if_unset (obj_availability result) (mobj_availability mg) \<rparr>) h)"

definition assign_features :: "nat \<Rightarrow> nat \<Rightarrow> heap \<Rightarrow> heap" where
  "assign_features m r h =
     (case product_at h r of
        None \<Rightarrow> h
      | Some result \<Rightarrow>
          (case obj_features result of
             None \<Rightarrow> h
           | Some fr \<Rightarrow>
               (case alloc (Strings (new_Set (strings_at h (mobj_features (merged_at h m))
                                               @ strings_at h fr))) h
                of (a, h') \<Rightarrow> set_merged m (\<lambda>mg. mg \<lparr> mobj_features := a \<rparr>) h')))"

definition assign_images :: "nat \<Rightarrow> nat \<Rightarrow> heap \<Rightarrow> heap" where
  "assign_images m r h =
     (case product_at h r of
        None \<Rightarrow> h
      | Some result \<Rightarrow>
          (case obj_images result of
             None \<Rightarrow> h
           | Some ir \<Rightarrow>
               (case alloc (Strings (new_Set (strings_at h (mobj_images (merged_at h m))
                                               @ strings_at h ir))) h
                of (a, h') \<Rightarrow> set_merged m (\<lambda>mg. mg \<lparr> mobj_images := a \<rparr>) h')))"

definition assign_specifications :: "nat \<Rightarrow> nat \<Rightarrow> heap \<Rightarrow> heap" where
  "assign_specifications m r h =
     (case product_at h r of
        None \<Rightarrow> h
      | Some result \<Rightarrow>
          (case obj_specifications result of
             None \<Rightarrow> h
           | Some sr \<Rightarrow>
               (case alloc (Dict (dict_at h (mobj_specifications (merged_at h m)) ++ dict_at h sr)) h
                of (a, h') \<Rightarrow> set_merged m (\<lambda>mg. mg \<lparr> mobj_specifications := a \<rparr>) h')))"

definition merge_step_obj :: "nat \<Rightarrow> nat \<Rightarrow> heap \<Rightarrow> heap" where
  "merge_step_obj m r h =
     assign_specifications m r (assign_images m r (assign_features m r (assign_scalars m r h)))"

text \<open>
  \<^verbatim>\<open>mergeProductData(results, productName)\<close> on the store: the object literal allocates
  the two empty arrays, the empty specifications and the merged object; the loop runs
  over the elements of the array at address \<open>results\<close>; the address of the merged object
  is returned.
\<close>

definition mergeProductData_obj :: "nat \<Rightarrow> string \<Rightarrow> heap \<Rightarrow> nat \<times> heap" where
  "mergeProductData_obj results productName h =
     (case alloc (Strings []) h of (fa, h1) \<Rightarrow>
      case alloc (Strings []) h1 of (ia, h2) \<Rightarrow>
      case alloc (Dict Map.empty) h2 of (sa, h3) \<Rightarrow>
      case alloc (MergedCell
             \<lparr> mobj_name = productName, mobj_price = [], mobj_rating = [], mobj_features = fa,
               mobj_description = [], mobj_availability = [], mobj_images = ia,
               mobj_specifications = sa \<rparr>) h3 of (m, h4) \<Rightarrow>
        (m, fold (merge_step_obj m) (refs_at h4 results) h4))"

text \<open>
  An input record allocated below address \<open>N\<close> together with its arrays and its
  specifications; and a merged object allocated at or above \<open>N\<close> with its arrays and its
  specifications.
\<close>

definition input_ok :: "nat \<Rightarrow> heap \<Rightarrow> nat \<Rightarrow> bool" where
  "input_ok N h r =
     (r < N \<and>
      (case product_at h r of
         None \<Rightarrow> False
       | Some p \<Rightarrow>
           (case obj_features p of None \<Rightarrow> True | Some a \<Rightarrow> a < N) \<and>
           (case obj_images p of None \<Rightarrow> True | Some a \<Rightarrow> a < N) \<and>
           (case obj_specifications p of None \<Rightarrow> True | Some a \<Rightarrow> a < N)))"

definition merged_ok :: "nat \<Rightarrow> nat \<Rightarrow> heap \<Rightarrow> bool" where
  "merged_ok N m h =
     (case cells h m of
        Some (MergedCell mg) \<Rightarrow>
          N \<le> m \<and> m < next_ref h \<and>
          N \<le> mobj_features mg \<and> mobj_features mg < next_ref h \<and> mobj_features mg \<noteq> m \<and>
          N \<le> mobj_images mg \<and> mobj_images mg < next_ref h \<and> mobj_images mg \<noteq> m \<and>
          N \<le> mobj_specifications mg \<and> mobj_specifications mg < next_ref h
            \<and> mobj_specifications mg \<noteq> m
      | _ \<Rightarrow> False)"

subsection \<open>Sample stores\<close>

text \<open>
  A logger with two entries in an otherwise empty store, and a store with the array
  of two product records at address 5.
\<close>

definition empty_heap :: heap where
  "empty_heap = \<lparr> cells = Map.empty, next_ref = 0 \<rparr>"

definition sample_logger :: "MaximLogger_obj \<times> heap" where
  "sample_logger =
     (case obj_new_MaximLogger ''ProductComparisonAgent'' empty_heap of (this, h) \<Rightarrow>
        (this, obj_addLog sample_clock WARN ''second'' None this
                 (obj_addLog sample_clock INFO ''first'' None this h)))"

definition sample_heap :: heap where
  "sample_heap =
     \<lparr> cells = [0 \<mapsto> Strings [''a'', ''b''],
                1 \<mapsto> Dict [''A'' \<mapsto> ''1''],
                2 \<mapsto> Product \<lparr> obj_name = ''W'', obj_price = Some ''$10'', obj_rating = None,
                      obj_features = Some 0, obj_description = None, obj_availability = None,
                      obj_images = None, obj_specifications = Some 1 \<rparr>,
                3 \<mapsto> Strings [''b'', ''c''],
                4 \<mapsto> Product \<lparr> obj_name = ''W'', obj_price = Some ''$20'', obj_rating = None,
                      obj_features = Some 3, obj_description = None, obj_availability = None,
                      obj_images = None, obj_specifications = None \<rparr>,
                5 \<mapsto> Refs [2, 4]],
       next_ref = 6 \<rparr>"

section \<open>Properties of the record merge\<close>

subsection \<open>The loop, field by field\<close>

lemma fold_merge_step_price:
  "merged_price (fold merge_step rs m) = fold (\<lambda>r. assign_if_unset (price r)) rs (merged_price m)"
  by (induction rs arbitrary: m) (simp_all add: merge_step_def)

lemma fold_merge_step_rating:
  "merged_rating (fold merge_step rs m) = fold (\<lambda>r. assign_if_unset (rating r)) rs (merged_rating m)"
  by (induction rs arbitrary: m) (simp_all add: merge_step_def)

lemma fold_merge_step_description:
  "merged_description (fold merge_step rs m) =
     fold (\<lambda>r. assign_if_unset (description r)) rs (merged_description m)"
  by (induction rs arbitrary: m) (simp_all add: merge_step_def)

lemma fold_merge_step_availability:
  "merged_availability (fold merge_step rs m) =
     fold (\<lambda>r. assign_if_unset (availability r)) rs (merged_availability m)"
  by (induction rs arbitrary: m) (simp_all add: merge_step_def)

lemma fold_merge_step_name:
  "merged_name (fold merge_step rs m) = merged_name m"
  by (induction rs arbitrary: m) (simp_all add: merge_step_def)

lemma fold_assign_if_unset:
  "fold (\<lambda>r. assign_if_unset (f r)) rs cur =
     (if cur \<noteq> [] then cur
      else case find (\<lambda>r. truthy (f r)) rs of None \<Rightarrow> [] | Some r \<Rightarrow> str_or_empty (f r))"
  by (induction rs arbitrary: cur)
     (auto simp: assign_if_unset_def truthy_def str_or_empty_def split: option.splits)

lemma fold_merge_step_specifications:
  "merged_specifications (fold merge_step rs m) =
     fold (\<lambda>r sp. sp ++ specs_of r) rs (merged_specifications m)"
  by (induction rs arbitrary: m) (simp_all add: merge_step_def specs_of_def split: option.splits)

lemma fold_map_add_lookup:
  "fold (\<lambda>r sp. sp ++ g r) rs m0 k =
     (case find (\<lambda>r. k \<in> dom (g r)) (rev rs) of None \<Rightarrow> m0 k | Some r \<Rightarrow> g r k)"
  by (induction rs rule: rev_induct) (auto simp: map_add_def split: option.splits)

lemma fold_map_add_dom:
  "dom (fold (\<lambda>r sp. sp ++ g r) rs m0) = dom m0 \<union> (\<Union>r\<in>set rs. dom (g r))"
  by (induction rs arbitrary: m0) auto

lemma set_fold_Set_add: "set (fold Set_add xs acc) = set acc \<union> set xs"
  by (induction xs arbitrary: acc) (auto simp: Set_add_def)

lemma distinct_fold_Set_add: "distinct acc \<Longrightarrow> distinct (fold Set_add xs acc)"
  by (induction xs arbitrary: acc) (auto simp: Set_add_def)

lemma set_new_Set: "set (new_Set xs) = set xs"
  by (simp add: new_Set_def set_fold_Set_add)

lemma distinct_new_Set: "distinct (new_Set xs)"
  by (simp add: new_Set_def distinct_fold_Set_add)

lemma new_Set_snoc: "new_Set (xs @ [x]) = (if x \<in> set xs then new_Set xs else new_Set xs @ [x])"
  using set_new_Set[of xs] by (simp add: new_Set_def Set_add_def)

lemma fold_Set_add_distinct: "distinct (acc @ ys) \<Longrightarrow> fold Set_add ys acc = acc @ ys"
  by (induction ys arbitrary: acc) (auto simp: Set_add_def)

lemma fold_Set_add_absorb:
  "fold Set_add (fold Set_add xs [] @ ys) [] = fold Set_add (xs @ ys) []"
proof -
  have "distinct ([] @ fold Set_add xs [])"
    by (simp add: distinct_fold_Set_add)
  then have "fold Set_add (fold Set_add xs []) [] = [] @ fold Set_add xs []"
    by (rule fold_Set_add_distinct)
  then show ?thesis by simp
qed

lemma new_Set_absorb: "new_Set (new_Set xs @ ys) = new_Set (xs @ ys)"
  unfolding new_Set_def by (rule fold_Set_add_absorb)

lemma fold_merge_step_features:
  "merged_features m = new_Set acc \<Longrightarrow>
   merged_features (fold merge_step rs m) = new_Set (acc @ concat (map (\<lambda>r. array_of (features r)) rs))"
proof (induction rs arbitrary: m acc)
  case Nil
  then show ?case by simp
next
  case (Cons r rs)
  have "merged_features (merge_step r m) = new_Set (acc @ array_of (features r))"
    using Cons.prems by (simp add: merge_step_def array_of_def new_Set_absorb split: option.splits)
  from Cons.IH[OF this] show ?case by simp
qed

lemma fold_merge_step_images:
  "merged_images m = new_Set acc \<Longrightarrow>
   merged_images (fold merge_step rs m) = new_Set (acc @ concat (map (\<lambda>r. array_of (images r)) rs))"
proof (induction rs arbitrary: m acc)
  case Nil
  then show ?case by simp
next
  case (Cons r rs)
  have "merged_images (merge_step r m) = new_Set (acc @ array_of (images r))"
    using Cons.prems by (simp add: merge_step_def array_of_def new_Set_absorb split: option.splits)
  from Cons.IH[OF this] show ?case by simp
qed

lemma new_Set_first_occurrences: "new_Set xs = first_occurrences xs"
proof (induction xs rule: rev_induct)
  case Nil
  then show ?case by (simp add: new_Set_def first_occurrences_def)
next
  case (snoc x xs)
  have m: "map (\<lambda>i. (xs @ [x]) ! i) (filter (\<lambda>i. (xs @ [x]) ! i \<notin> set (take i (xs @ [x]))) [0..<length xs])
         = first_occurrences xs"
    unfolding first_occurrences_def
    by (intro map_cong filter_cong arg_cong2[where f=map] refl) (auto simp: nth_append)
  show ?case
    using snoc m by (simp add: new_Set_snoc first_occurrences_def)
qed

subsection \<open>Scalar fields: price, availability, description\<close>

text \<open>
  Claim C6. For every input sequence of records (the non-empty ones in particular), the
  merged \<^verbatim>\<open>price\<close>, \<^verbatim>\<open>availability\<close> and \<^verbatim>\<open>description\<close> are each the value of the first
  record in sequence order whose value for that field is non-empty; the values of all
  later records for that field are ignored. When no record has a non-empty value, the
  merged field is the empty string.
\<close>

theorem mergeProductData_first_writer_wins:
  "merged_price (mergeProductData rs n) =
     (case find (\<lambda>r. truthy (price r)) rs of None \<Rightarrow> [] | Some r \<Rightarrow> str_or_empty (price r))
   \<and> merged_availability (mergeProductData rs n) =
     (case find (\<lambda>r. truthy (availability r)) rs of None \<Rightarrow> []
      | Some r \<Rightarrow> str_or_empty (availability r))
   \<and> merged_description (mergeProductData rs n) =
     (case find (\<lambda>r. truthy (description r)) rs of None \<Rightarrow> []
      | Some r \<Rightarrow> str_or_empty (description r))"
  by (simp add: mergeProductData_def merged_init_def fold_merge_step_price
      fold_merge_step_availability fold_merge_step_description fold_assign_if_unset)

text \<open>The example of the specification: prices \<^verbatim>\<open>$10\<close> then \<^verbatim>\<open>$20\<close> merge to \<^verbatim>\<open>$10\<close>.\<close>

theorem mergeProductData_first_writer_wins_witness:
  "merged_price (mergeProductData
      [(blank ''W'')\<lparr>price := Some ''$10''\<rparr>, (blank ''W'')\<lparr>price := Some ''$20''\<rparr>] ''W'') = ''$10''"
  using mergeProductData_first_writer_wins
    [of "[(blank ''W'')\<lparr>price := Some ''$10''\<rparr>, (blank ''W'')\<lparr>price := Some ''$20''\<rparr>]" "''W''"]
  by (simp add: truthy_def str_or_empty_def blank_def)

subsection \<open>Specifications\<close>

text \<open>
  Claim C7. For every input sequence of records, the merged \<^verbatim>\<open>specifications\<close> mapping is
  the shallow key union of the records' specifications: its keys are the keys of all the
  records, and the value under a key is the value of the last record in sequence order
  that has the key (on a collision the later record overwrites the earlier one).
\<close>

theorem mergeProductData_specifications_last_writer_wins:
  "merged_specifications (mergeProductData rs n) k =
     (case find (\<lambda>r. k \<in> dom (specs_of r)) (rev rs) of None \<Rightarrow> None | Some r \<Rightarrow> specs_of r k)
   \<and> dom (merged_specifications (mergeProductData rs n)) = (\<Union>r\<in>set rs. dom (specs_of r))"
  by (simp add: mergeProductData_def merged_init_def fold_merge_step_specifications
      fold_map_add_lookup fold_map_add_dom)

text \<open>The example of the specification: \<^verbatim>\<open>{A:"1"}\<close> then \<^verbatim>\<open>{A:"2",B:"3"}\<close> gives \<^verbatim>\<open>A\<close> the value \<^verbatim>\<open>"2"\<close>.\<close>

theorem mergeProductData_specifications_last_writer_wins_witness:
  "merged_specifications (mergeProductData
      [(blank ''W'')\<lparr>specifications := Some [''A'' \<mapsto> ''1'']\<rparr>,
       (blank ''W'')\<lparr>specifications := Some [''A'' \<mapsto> ''2'', ''B'' \<mapsto> ''3'']\<rparr>] ''W'') ''A'' = Some ''2''"
  using mergeProductData_specifications_last_writer_wins
    [of "[(blank ''W'')\<lparr>specifications := Some [''A'' \<mapsto> ''1'']\<rparr>,
       (blank ''W'')\<lparr>specifications := Some [''A'' \<mapsto> ''2'', ''B'' \<mapsto> ''3'']\<rparr>]" "''W''" "''A''"]
  by (simp add: specs_of_def blank_def)

subsection \<open>Features and images\<close>

text \<open>
  Claim C8. For every input sequence of records, the merged \<^verbatim>\<open>features\<close> list is the
  union of the records' feature lists, de-duplicated by exact string equality: it has no
  duplicates, its elements are exactly the strings that occur in some record's list, and
  they stand in first-seen order (each string at the place of its first occurrence in
  the concatenation of the lists). The same holds for \<^verbatim>\<open>images\<close>.
\<close>

theorem mergeProductData_features_images_union:
  "merged_features (mergeProductData rs n) =
     first_occurrences (concat (map (\<lambda>r. array_of (features r)) rs))
   \<and> distinct (merged_features (mergeProductData rs n))
   \<and> set (merged_features (mergeProductData rs n)) = (\<Union>r\<in>set rs. set (array_of (features r)))
   \<and> merged_images (mergeProductData rs n) =
     first_occurrences (concat (map (\<lambda>r. array_of (images r)) rs))
   \<and> distinct (merged_images (mergeProductData rs n))
   \<and> set (merged_images (mergeProductData rs n)) = (\<Union>r\<in>set rs. set (array_of (images r)))"
proof -
  have f: "merged_features (mergeProductData rs n) =
      new_Set (concat (map (\<lambda>r. array_of (features r)) rs))"
    using fold_merge_step_features[of "merged_init n" "[]" rs]
    by (simp add: mergeProductData_def merged_init_def new_Set_def)
  have i: "merged_images (mergeProductData rs n) =
      new_Set (concat (map (\<lambda>r. array_of (images r)) rs))"
    using fold_merge_step_images[of "merged_init n" "[]" rs]
    by (simp add: mergeProductData_def merged_init_def new_Set_def)
  show ?thesis
    unfolding f i
    by (simp add: new_Set_first_occurrences[symmetric] distinct_new_Set set_new_Set)
qed

theorem mergeProductData_features_images_union_witness:
  "merged_features (mergeProductData
      [(blank ''W'')\<lparr>features := Some [''a'', ''b'']\<rparr>,
       (blank ''W''),
       (blank ''W'')\<lparr>features := Some [''b'', ''c'', ''a'']\<rparr>] ''W'') = [''a'', ''b'', ''c'']"
  using mergeProductData_features_images_union
    [of "[(blank ''W'')\<lparr>features := Some [''a'', ''b'']\<rparr>,
       (blank ''W''),
       (blank ''W'')\<lparr>features := Some [''b'', ''c'', ''a'']\<rparr>]" "''W''"]
  by (simp add: first_occurrences_def array_of_def blank_def upt_rec)

subsection \<open>Rating\<close>

text \<open>
  Claim C1, as the code has it. For every input sequence of records, the top-level merge
  takes \<^verbatim>\<open>rating\<close> from the first record in sequence order whose rating is non-empty, by
  the same statement as for \<^verbatim>\<open>price\<close>; no rating is parsed and none is compared with
  another. When no record has a non-empty rating, the merged rating is the empty string.
\<close>

theorem mergeProductData_rating_first_writer_wins:
  "merged_rating (mergeProductData rs n) =
     (case find (\<lambda>r. truthy (rating r)) rs of None \<Rightarrow> [] | Some r \<Rightarrow> str_or_empty (rating r))"
  by (simp add: mergeProductData_def merged_init_def fold_merge_step_rating fold_assign_if_unset)

text \<open>A later rating with a higher number does not displace the first one.\<close>

theorem mergeProductData_rating_first_writer_wins_witness:
  "merged_rating (mergeProductData
      [(blank ''W''), (blank ''W'')\<lparr>rating := Some ''4.5/5 (x)''\<rparr>,
       (blank ''W'')\<lparr>rating := Some ''4.9/5 (y)''\<rparr>] ''W'') = ''4.5/5 (x)''"
  using mergeProductData_rating_first_writer_wins
    [of "[(blank ''W''), (blank ''W'')\<lparr>rating := Some ''4.5/5 (x)''\<rparr>,
       (blank ''W'')\<lparr>rating := Some ''4.9/5 (y)''\<rparr>]" "''W''"]
  by (simp add: truthy_def str_or_empty_def blank_def)

text \<open>
  The second example of the specification for the rating rule: for the ratings
  \<^verbatim>\<open>4.1/5\<close> then \<^verbatim>\<open>4.7/5\<close> the merged rating is \<^verbatim>\<open>4.1/5\<close>, not the numerically highest
  \<^verbatim>\<open>4.7/5\<close>.
\<close>

theorem mergeProductData_rating_not_highest:
  "merged_rating (mergeProductData
      [(blank ''W'')\<lparr>rating := Some ''4.1/5''\<rparr>, (blank ''W'')\<lparr>rating := Some ''4.7/5''\<rparr>] ''W'')
     = ''4.1/5''
   \<and> merged_rating (mergeProductData
      [(blank ''W'')\<lparr>rating := Some ''4.1/5''\<rparr>, (blank ''W'')\<lparr>rating := Some ''4.7/5''\<rparr>] ''W'')
     \<noteq> ''4.7/5''"
  by (simp add: mergeProductData_def merged_init_def merge_step_def assign_if_unset_def blank_def)

subsection \<open>The empty input sequence\<close>

text \<open>
  Claim C4, as the code has it. Invoked with an empty input sequence, the record merge
  returns a record: the one that carries the requested name and has every other field
  empty. No error is raised.
\<close>

theorem mergeProductData_empty_input:
  "mergeProductData [] n =
     \<lparr> merged_name = n, merged_price = [], merged_rating = [],
       merged_features = [], merged_description = [], merged_availability = [],
       merged_images = [], merged_specifications = Map.empty \<rparr>"
  by (simp add: mergeProductData_def merged_init_def)

theorem mergeProductData_empty_input_witness:
  "merged_name (mergeProductData [] ''Pixel 8'') = ''Pixel 8''
   \<and> merged_features (mergeProductData [] ''Pixel 8'') = []"
  using mergeProductData_empty_input [of "''Pixel 8''"] by simp

text \<open>At the name \<^verbatim>\<open>Widget\<close> the merge of no records returns the empty record for \<^verbatim>\<open>Widget\<close>.\<close>

theorem mergeProductData_empty_input_returns:
  "mergeProductData [] ''Widget'' =
     \<lparr> merged_name = ''Widget'', merged_price = [], merged_rating = [],
       merged_features = [], merged_description = [], merged_availability = [],
       merged_images = [], merged_specifications = Map.empty \<rparr>"
  by (simp add: mergeProductData_def merged_init_def)

section \<open>Properties of the aggregation\<close>

subsection \<open>The log only grows\<close>

lemma logs_addLog:
  "logs (addLog now lv msg md lg) = logs lg @
     [\<lparr> timestamp = now (length (logs lg)), level = lv, message = msg,
        source = logger_source lg, metadata = md \<rparr>]"
  by (simp add: addLog_def)

lemma source_addLog: "logger_source (addLog now lv msg md lg) = logger_source lg"
  by (simp add: addLog_def)

lemma log_calls_grows:
  "\<exists>es. logs (log_calls now calls lg) = logs lg @ es"
proof (induction calls arbitrary: lg)
  case Nil
  then show ?case by (simp add: log_calls_def)
next
  case (Cons c calls)
  obtain lv msg md where c: "c = (lv, msg, md)" by (cases c)
  have "log_calls now (c # calls) lg = log_calls now calls (addLog now lv msg md lg)"
    by (simp add: log_calls_def c)
  moreover obtain es where "logs (log_calls now calls (addLog now lv msg md lg))
      = logs (addLog now lv msg md lg) @ es"
    using Cons.IH by blast
  ultimately show ?case by (simp add: logs_addLog)
qed

lemma source_log_calls: "logger_source (log_calls now calls lg) = logger_source lg"
proof (induction calls arbitrary: lg)
  case Nil
  then show ?case by (simp add: log_calls_def)
next
  case (Cons c calls)
  obtain lv msg md where c: "c = (lv, msg, md)" by (cases c)
  have "log_calls now (c # calls) lg = log_calls now calls (addLog now lv msg md lg)"
    by (simp add: log_calls_def c)
  then show ?case using Cons.IH by (simp add: source_addLog)
qed

lemma run_scraper_Inl:
  assumes "scrapeProduct s n (info now (''Starting intelligent '' @ constructor_name s @ '' for '' @ n)
             None (logger w)) = (Inl e, calls)"
  shows "run_scraper now n s (results, w) =
     (results,
      \<lparr> logger = warn now (''Scraper '' @ constructor_name s @ '' had issues, but provided fallback data'')
          (Some [(''product'', Str n), (''error'', Str (error_message e))])
          (log_calls now calls
             (info now (''Starting intelligent '' @ constructor_name s @ '' for '' @ n) None (logger w))),
        invocations = invocations w @ [(constructor_name s, n, Inl e)] \<rparr>)"
  using assms by (simp add: run_scraper_def)

lemma run_scraper_Inr:
  assumes "scrapeProduct s n (info now (''Starting intelligent '' @ constructor_name s @ '' for '' @ n)
             None (logger w)) = (Inr d, calls)"
  shows "run_scraper now n s (results, w) =
     (results @ [d],
      \<lparr> logger = info now (''Intelligent '' @ constructor_name s @ '' completed for '' @ n) None
          (log_calls now calls
             (info now (''Starting intelligent '' @ constructor_name s @ '' for '' @ n) None (logger w))),
        invocations = invocations w @ [(constructor_name s, n, Inr d)] \<rparr>)"
  using assms by (simp add: run_scraper_def)

lemma run_scraper_step:
  assumes "run_scraper now n s (results, w) = (r1, w1)"
  shows "\<exists>out es. invocations w1 = invocations w @ [(constructor_name s, n, out)]
           \<and> r1 = results @ successes [(constructor_name s, n, out)]
           \<and> logs (logger w1) = logs (logger w) @ es
           \<and> logger_source (logger w1) = logger_source (logger w)
           \<and> (\<forall>f\<in>set (failures [(constructor_name s, n, out)]). \<exists>x\<in>set es. absorbed_warning f x)
           \<and> length (failures [(constructor_name s, n, out)]) \<le> length (filter (\<lambda>x. level x = WARN) es)"
proof -
  let ?lg1 = "info now (''Starting intelligent '' @ constructor_name s @ '' for '' @ n) None (logger w)"
  obtain out calls where sp: "scrapeProduct s n ?lg1 = (out, calls)"
    by (cases "scrapeProduct s n ?lg1")
  obtain es2 where es2: "logs (log_calls now calls ?lg1) = logs ?lg1 @ es2"
    using log_calls_grows by blast
  obtain e1 where l1: "logs ?lg1 = logs (logger w) @ [e1]"
    by (simp add: info_def logs_addLog)
  have s1: "logger_source (log_calls now calls ?lg1) = logger_source (logger w)"
    by (simp add: source_log_calls info_def source_addLog)
  show ?thesis
  proof (cases out)
    case (Inl e)
    let ?x = "\<lparr> timestamp = now (length (logs (log_calls now calls ?lg1))), level = WARN,
        message = ''Scraper '' @ constructor_name s @ '' had issues, but provided fallback data'',
        source = logger_source (log_calls now calls ?lg1),
        metadata = Some [(''product'', Str n), (''error'', Str (error_message e))] \<rparr>"
    from run_scraper_Inl[OF sp[unfolded Inl], where results = results] assms
    have r1: "r1 = results" and
      w1: "w1 = \<lparr> logger = warn now (''Scraper '' @ constructor_name s @ '' had issues, but provided fallback data'')
          (Some [(''product'', Str n), (''error'', Str (error_message e))]) (log_calls now calls ?lg1),
        invocations = invocations w @ [(constructor_name s, n, Inl e)] \<rparr>"
      by simp_all
    have p1: "invocations w1 = invocations w @ [(constructor_name s, n, out)]"
      using w1 Inl by simp
    have p2: "r1 = results @ successes [(constructor_name s, n, out)]"
      using r1 Inl by (simp add: successes_def)
    have p3: "logs (logger w1) = logs (logger w) @ (e1 # es2 @ [?x])"
      using w1 es2 l1 by (simp add: warn_def logs_addLog)
    have p4: "logger_source (logger w1) = logger_source (logger w)"
      using w1 s1 by (simp add: warn_def source_addLog)
    have fl: "failures [(constructor_name s, n, out)] = [(constructor_name s, n, e)]"
      using Inl by (simp add: failures_def)
    have ax: "absorbed_warning (constructor_name s, n, e) ?x"
      by (simp add: absorbed_warning_def)
    have p5: "\<forall>f\<in>set (failures [(constructor_name s, n, out)]). \<exists>x\<in>set (e1 # es2 @ [?x]). absorbed_warning f x"
      unfolding fl using ax by simp
    have p6: "length (failures [(constructor_name s, n, out)]) \<le> length (filter (\<lambda>x. level x = WARN) (e1 # es2 @ [?x]))"
      unfolding fl by simp
    from p1 p2 p3 p4 p5 p6 show ?thesis by blast
  next
    case (Inr d)
    let ?x = "\<lparr> timestamp = now (length (logs (log_calls now calls ?lg1))), level = INFO,
        message = ''Intelligent '' @ constructor_name s @ '' completed for '' @ n,
        source = logger_source (log_calls now calls ?lg1),
        metadata = None \<rparr>"
    from run_scraper_Inr[OF sp[unfolded Inr], where results = results] assms
    have r1: "r1 = results @ [d]" and
      w1: "w1 = \<lparr> logger = info now (''Intelligent '' @ constructor_name s @ '' completed for '' @ n) None
          (log_calls now calls ?lg1),
        invocations = invocations w @ [(constructor_name s, n, Inr d)] \<rparr>"
      by simp_all
    have p1: "invocations w1 = invocations w @ [(constructor_name s, n, out)]"
      using w1 Inr by simp
    have p2: "r1 = results @ successes [(constructor_name s, n, out)]"
      using r1 Inr by (simp add: successes_def)
    have p3: "logs (logger w1) = logs (logger w) @ (e1 # es2 @ [?x])"
      using w1 es2 l1 by (simp add: info_def logs_addLog)
    have p4: "logger_source (logger w1) = logger_source (logger w)"
      using w1 s1 by (simp add: info_def source_addLog)
    have fl: "failures [(constructor_name s, n, out)] = []"
      using Inr by (simp add: failures_def)
    have p5: "\<forall>f\<in>set (failures [(constructor_name s, n, out)]). \<exists>x\<in>set (e1 # es2 @ [?x]). absorbed_warning f x"
      unfolding fl by simp
    have p6: "length (failures [(constructor_name s, n, out)]) \<le> length (filter (\<lambda>x. level x = WARN) (e1 # es2 @ [?x]))"
      unfolding fl by simp
    from p1 p2 p3 p4 p5 p6 show ?thesis by blast
  qed
qed

lemma successes_append: "successes (a @ b) = successes a @ successes b"
  by (simp add: successes_def)

lemma failures_append: "failures (a @ b) = failures a @ failures b"
  by (simp add: failures_def)

lemma run_scrapers_fold:
  "fold (run_scraper now n) scrapers (results, w) = (results', w') \<Longrightarrow>
   \<exists>tr es. invocations w' = invocations w @ tr
     \<and> map (\<lambda>(c, p, out). (c, p)) tr = map (\<lambda>s. (constructor_name s, n)) scrapers
     \<and> results' = results @ successes tr
     \<and> logs (logger w') = logs (logger w) @ es
     \<and> logger_source (logger w') = logger_source (logger w)
     \<and> (\<forall>f\<in>set (failures tr). \<exists>x\<in>set es. absorbed_warning f x)
     \<and> length (failures tr) \<le> length (filter (\<lambda>x. level x = WARN) es)"
proof (induction scrapers arbitrary: results w)
  case Nil
  then show ?case by (simp add: successes_def failures_def)
next
  case (Cons s scrapers)
  obtain r1 w1 where st: "run_scraper now n s (results, w) = (r1, w1)"
    by (cases "run_scraper now n s (results, w)")
  from run_scraper_step[OF st] obtain out es1 where
    a1: "invocations w1 = invocations w @ [(constructor_name s, n, out)]" and
    a2: "r1 = results @ successes [(constructor_name s, n, out)]" and
    a3: "logs (logger w1) = logs (logger w) @ es1" and
    a4: "logger_source (logger w1) = logger_source (logger w)" and
    a5: "\<forall>f\<in>set (failures [(constructor_name s, n, out)]). \<exists>x\<in>set es1. absorbed_warning f x" and
    a6: "length (failures [(constructor_name s, n, out)]) \<le> length (filter (\<lambda>x. level x = WARN) es1)"
    by blast
  have "fold (run_scraper now n) scrapers (r1, w1) = (results', w')"
    using Cons.prems st by simp
  from Cons.IH[OF this] obtain tr es where
    b1: "invocations w' = invocations w1 @ tr" and
    b2: "map (\<lambda>(c, p, out). (c, p)) tr = map (\<lambda>s. (constructor_name s, n)) scrapers" and
    b3: "results' = r1 @ successes tr" and
    b4: "logs (logger w') = logs (logger w1) @ es" and
    b5: "logger_source (logger w') = logger_source (logger w1)" and
    b6: "\<forall>f\<in>set (failures tr). \<exists>x\<in>set es. absorbed_warning f x" and
    b7: "length (failures tr) \<le> length (filter (\<lambda>x. level x = WARN) es)"
    by blast
  let ?tr = "(constructor_name s, n, out) # tr"
  let ?es = "es1 @ es"
  have c1: "invocations w' = invocations w @ ?tr" using a1 b1 by simp
  have c2: "map (\<lambda>(c, p, out). (c, p)) ?tr = map (\<lambda>s. (constructor_name s, n)) (s # scrapers)"
    using b2 by simp
  have sp: "successes ?tr = successes [(constructor_name s, n, out)] @ successes tr"
    using successes_append[of "[(constructor_name s, n, out)]" tr] by simp
  have fp: "failures ?tr = failures [(constructor_name s, n, out)] @ failures tr"
    using failures_append[of "[(constructor_name s, n, out)]" tr] by simp
  have c3: "results' = results @ successes ?tr" using a2 b3 sp by simp
  have c4: "logs (logger w') = logs (logger w) @ ?es" using a3 b4 by simp
  have c5: "logger_source (logger w') = logger_source (logger w)" using a4 b5 by simp
  have c6: "\<forall>f\<in>set (failures ?tr). \<exists>x\<in>set ?es. absorbed_warning f x"
    using a5 b6 fp by auto
  have c7: "length (failures ?tr) \<le> length (filter (\<lambda>x. level x = WARN) ?es)"
    using a6 b7 fp by simp
  from c1 c2 c3 c4 c5 c6 c7 show ?case by blast
qed

lemma scrapeProductDataWithFallback_run:
  assumes "scrapeProductDataWithFallback now rnd n scrapers w = (m, w')"
  shows "invocations w' = invocations w @ new_invocations w w'
     \<and> map (\<lambda>(c, p, out). (c, p)) (new_invocations w w') = map (\<lambda>s. (constructor_name s, n)) scrapers
     \<and> m = mergeProductData
           (if successes (new_invocations w w') = [] then [createIntelligentFallback rnd n]
            else successes (new_invocations w w')) n
     \<and> logs (logger w') = logs (logger w) @ new_logs w w'
     \<and> (\<forall>f\<in>set (failures (new_invocations w w')). \<exists>x\<in>set (new_logs w w'). absorbed_warning f x)
     \<and> length (failures (new_invocations w w')) \<le> length (filter (\<lambda>x. level x = WARN) (new_logs w w'))"
proof -
  obtain results w1 where f: "fold (run_scraper now n) scrapers ([], w) = (results, w1)"
    by (cases "fold (run_scraper now n) scrapers ([], w)")
  from run_scrapers_fold[OF f] obtain tr es where
    b1: "invocations w1 = invocations w @ tr" and
    b2: "map (\<lambda>(c, p, out). (c, p)) tr = map (\<lambda>s. (constructor_name s, n)) scrapers" and
    b3: "results = [] @ successes tr" and
    b4: "logs (logger w1) = logs (logger w) @ es" and
    b6: "\<forall>f\<in>set (failures tr). \<exists>x\<in>set es. absorbed_warning f x" and
    b7: "length (failures tr) \<le> length (filter (\<lambda>x. level x = WARN) es)"
    by blast
  show ?thesis
  proof (cases "results = []")
    case True
    have m: "m = mergeProductData [createIntelligentFallback rnd n] n"
      and w': "w' = w1 \<lparr> logger := info now (''Creating intelligent fallback data for '' @ n) None (logger w1) \<rparr>"
      using assms f True by (simp_all add: scrapeProductDataWithFallback_def)
    have i: "new_invocations w w' = tr" using b1 w' by (simp add: new_invocations_def)
    have l: "new_logs w w' = es @ [\<lparr> timestamp = now (length (logs (logger w1))), level = INFO,
        message = ''Creating intelligent fallback data for '' @ n,
        source = logger_source (logger w1), metadata = None \<rparr>]"
      using b4 w' by (simp add: new_logs_def info_def logs_addLog)
    have l': "logs (logger w') = logs (logger w) @ new_logs w w'"
      using b4 w' l by (simp add: info_def logs_addLog)
    show ?thesis
      unfolding i using b1 b2 b3 b6 b7 True m w' l l' by auto
  next
    case False
    have m: "m = mergeProductData results n" and w': "w' = w1"
      using assms f False by (simp_all add: scrapeProductDataWithFallback_def)
    have i: "new_invocations w w' = tr" using b1 w' by (simp add: new_invocations_def)
    have l: "new_logs w w' = es" using b4 w' by (simp add: new_logs_def)
    show ?thesis
      unfolding i l using b1 b2 b3 b4 b6 b7 False m w' by auto
  qed
qed

subsection \<open>The rating pattern\<close>

lemma digit_char_is_digit: "d < 10 \<Longrightarrow> is_digit (digit_char d)"
proof -
  assume "d < 10"
  then have "d = 0 \<or> d = 1 \<or> d = 2 \<or> d = 3 \<or> d = 4 \<or> d = 5 \<or> d = 6 \<or> d = 7 \<or> d = 8 \<or> d = 9"
    by arith
  then show ?thesis
    by (elim disjE) (simp_all add: digit_char_def is_digit_def)
qed

lemma string_of_nat_digits: "list_all is_digit (string_of_nat n) \<and> string_of_nat n \<noteq> []"
proof (induction n rule: string_of_nat.induct)
  case (1 n)
  show ?case
  proof (cases "n < 10")
    case True
    then show ?thesis using digit_char_is_digit[of n] by simp
  next
    case False
    have "n mod 10 < 10" by simp
    then have "is_digit (digit_char (n mod 10))" by (rule digit_char_is_digit)
    then show ?thesis using False 1 by (subst string_of_nat.simps) simp
  qed
qed

lemma takeWhile_digits:
  "list_all is_digit ds \<Longrightarrow> \<not> is_digit c \<Longrightarrow> takeWhile is_digit (ds @ c # rest) = ds"
  by (induction ds) auto

lemma dropWhile_digits:
  "list_all is_digit ds \<Longrightarrow> \<not> is_digit c \<Longrightarrow> dropWhile is_digit (ds @ c # rest) = c # rest"
  by (induction ds) auto

lemma matches_rating_pattern_decimal:
  assumes "list_all is_digit ds" "ds \<noteq> []" "is_digit d"
  shows "matches_rating_pattern (ds @ ''.'' @ [d] @ ''/5'' @ rest)"
proof -
  have nd: "\<not> is_digit CHR ''.''" "\<not> is_digit CHR ''/''" by (simp_all add: is_digit_def)
  have t: "takeWhile is_digit (ds @ CHR ''.'' # d # CHR ''/'' # CHR ''5'' # rest) = ds"
    using assms(1) nd(1) by (rule takeWhile_digits)
  have dr: "dropWhile is_digit (ds @ CHR ''.'' # d # CHR ''/'' # CHR ''5'' # rest)
      = CHR ''.'' # d # CHR ''/'' # CHR ''5'' # rest"
    using assms(1) nd(1) by (rule dropWhile_digits)
  show ?thesis
    using assms(2,3) nd(2) by (simp add: matches_rating_pattern_def t dr)
qed

lemma toFixed1_shape:
  assumes "0 \<le> x"
  shows "\<exists>ds d. list_all is_digit ds \<and> ds \<noteq> [] \<and> is_digit d \<and> toFixed1 x = ds @ ''.'' @ [d]"
proof -
  let ?n = "nat \<lfloor>x * 10 + 1 / 2\<rfloor>"
  have "?n mod 10 < 10" by simp
  then have d: "is_digit (digit_char (?n mod 10))" by (rule digit_char_is_digit)
  have s: "string_of_nat (?n mod 10) = [digit_char (?n mod 10)]" by simp
  have "toFixed1 x = string_of_nat (?n div 10) @ ''.'' @ [digit_char (?n mod 10)]"
    using assms s by (simp add: toFixed1_def Let_def del: string_of_nat.simps)
  then show ?thesis using d string_of_nat_digits[of "?n div 10"] by blast
qed

lemma fallback_rating_phone:
  assumes "0 \<le> r"
  shows "matches_rating_pattern (toFixed1 (r * (3 / 2) + 7 / 2) @ ''/5 (estimated)'')"
proof -
  have "0 \<le> r * (3 / 2) + 7 / 2" using assms by simp
  from toFixed1_shape[OF this] obtain ds d where
    a: "list_all is_digit ds" "ds \<noteq> []" "is_digit d" and
    b: "toFixed1 (r * (3 / 2) + 7 / 2) = ds @ ''.'' @ [d]" by blast
  from matches_rating_pattern_decimal[OF a, of "'' (estimated)''"] show ?thesis
    unfolding b by simp
qed

lemma not_rating_varies: "\<not> matches_rating_pattern ''Rating varies''"
  by (simp add: matches_rating_pattern_def is_digit_def)

subsection \<open>The request handler\<close>

lemma POST_reaches_Ok:
  assumes "truthy (product1 body)" "truthy (product2 body)" "truthy (OPENAI_API_KEY e)"
    "methods body = Some ms" "select_scrapers e ms \<noteq> []"
  shows "is_Ok (fst (POST e body w))"
  using assms by (simp add: POST_def Let_def split: prod.splits)


lemma POST_rejects_missing_name:
  assumes "\<not> truthy (product1 body) \<or> \<not> truthy (product2 body)"
  shows "POST e body w = (BadRequest ''Both product names are required'', w)"
  using assms by (auto simp: POST_def)

lemma POST_rejects_empty_selection:
  assumes "truthy (product1 body)" "truthy (product2 body)" "truthy (OPENAI_API_KEY e)"
    "methods body = Some ms" "select_scrapers e ms = []"
  shows "fst (POST e body w) = BadRequest ''No valid scraping methods selected''
     \<and> invocations (snd (POST e body w)) = invocations w"
  using assms by (simp add: POST_def Let_def)

subsection \<open>Runs on the sample inputs\<close>

text \<open>
  A scraper that throws or returns whatever the state of the logger, run alone or twice;
  the blank name at the first statements of \<^verbatim>\<open>ScrapybaraBrowser.scrapeProduct\<close>; the
  invocations a successful request leaves behind.
\<close>

lemma timing_out_throws:
  "scrapeProduct timing_out n lg = (Inl (Error ''timeout''), [(ERROR, ''TimingOut: Scrape failed'', None)])"
  by (simp add: timing_out_def)

lemma run_timing_out:
  "run_scraper now n timing_out (results, w) =
     (results,
      \<lparr> logger = warn now (''Scraper '' @ constructor_name timing_out @ '' had issues, but provided fallback data'')
          (Some [(''product'', Str n), (''error'', Str (error_message (Error ''timeout'')))])
          (log_calls now [(ERROR, ''TimingOut: Scrape failed'', None)]
             (info now (''Starting intelligent '' @ constructor_name timing_out @ '' for '' @ n) None (logger w))),
        invocations = invocations w @ [(constructor_name timing_out, n, Inl (Error ''timeout''))] \<rparr>)"
  by (rule run_scraper_Inl) (rule timing_out_throws)

lemma cn_timing_out: "constructor_name timing_out = ''TimingOut''"
  by (simp add: timing_out_def)

lemma all_timing_out:
  "fst (fold (run_scraper now n) [timing_out, timing_out] ([], w)) = []
   \<and> invocations (snd (fold (run_scraper now n) [timing_out, timing_out] ([], w)))
       = invocations w @ [(''TimingOut'', n, Inl (Error ''timeout'')), (''TimingOut'', n, Inl (Error ''timeout''))]
   \<and> length (filter (\<lambda>x. level x = WARN)
         (drop (length (logs (logger w))) (logs (logger (snd (fold (run_scraper now n) [timing_out, timing_out] ([], w))))))) = 2"
  by (simp add: run_timing_out cn_timing_out warn_def info_def logs_addLog log_calls_def)

lemma one_timing_out:
  "fst (fold (run_scraper now n) [timing_out] ([], w)) = []
   \<and> invocations (snd (fold (run_scraper now n) [timing_out] ([], w)))
       = invocations w @ [(''TimingOut'', n, Inl (Error ''timeout''))]"
  by (simp add: run_timing_out cn_timing_out)

lemma scrape_fails_twice:
  "fst (scrapeProductDataWithFallback now rnd n [timing_out, timing_out] w)
     = mergeProductData [createIntelligentFallback rnd n] n
   \<and> new_invocations w (snd (scrapeProductDataWithFallback now rnd n [timing_out, timing_out] w))
     = [(''TimingOut'', n, Inl (Error ''timeout'')), (''TimingOut'', n, Inl (Error ''timeout''))]
   \<and> length (filter (\<lambda>x. level x = WARN)
        (new_logs w (snd (scrapeProductDataWithFallback now rnd n [timing_out, timing_out] w)))) = 2"
proof -
  obtain rs w1 where f: "fold (run_scraper now n) [timing_out, timing_out] ([], w) = (rs, w1)"
    by (cases "fold (run_scraper now n) [timing_out, timing_out] ([], w)")
  from all_timing_out[of now n w] have
    a: "rs = []" and
    b: "invocations w1 = invocations w @ [(''TimingOut'', n, Inl (Error ''timeout'')), (''TimingOut'', n, Inl (Error ''timeout''))]" and
    c: "length (filter (\<lambda>x. level x = WARN) (drop (length (logs (logger w))) (logs (logger w1)))) = 2"
    unfolding f by simp_all
  obtain es where es: "logs (logger w1) = logs (logger w) @ es"
    using run_scrapers_fold[OF f] by blast
  have s: "scrapeProductDataWithFallback now rnd n [timing_out, timing_out] w =
      (mergeProductData [createIntelligentFallback rnd n] n,
       w1 \<lparr> logger := info now (''Creating intelligent fallback data for '' @ n) None (logger w1) \<rparr>)"
    using f a by (simp add: scrapeProductDataWithFallback_def)
  show ?thesis
    unfolding s using b c es by (simp add: new_invocations_def new_logs_def info_def logs_addLog)
qed

lemma scrape_fails_once:
  "fst (scrapeProductDataWithFallback now rnd n [timing_out] w)
     = mergeProductData [createIntelligentFallback rnd n] n
   \<and> new_invocations w (snd (scrapeProductDataWithFallback now rnd n [timing_out] w))
     = [(''TimingOut'', n, Inl (Error ''timeout''))]"
proof -
  obtain rs w1 where f: "fold (run_scraper now n) [timing_out] ([], w) = (rs, w1)"
    by (cases "fold (run_scraper now n) [timing_out] ([], w)")
  from one_timing_out[of now n w] have
    a: "rs = []" and
    b: "invocations w1 = invocations w @ [(''TimingOut'', n, Inl (Error ''timeout''))]"
    unfolding f by simp_all
  have s: "scrapeProductDataWithFallback now rnd n [timing_out] w =
      (mergeProductData [createIntelligentFallback rnd n] n,
       w1 \<lparr> logger := info now (''Creating intelligent fallback data for '' @ n) None (logger w1) \<rparr>)"
    using f a by (simp add: scrapeProductDataWithFallback_def)
  show ?thesis
    unfolding s using b by (simp add: new_invocations_def)
qed

lemma merged_rating_single:
  "merged_rating (mergeProductData [r] n) = (if truthy (rating r) then str_or_empty (rating r) else [])"
  by (simp add: mergeProductData_def merged_init_def merge_step_def assign_if_unset_def truthy_def
      str_or_empty_def split: option.splits)

lemma scrape_returns_once:
  assumes "\<And>lg. scrapeProduct s n lg = (Inr d, calls)"
  shows "new_invocations w (snd (scrapeProductDataWithFallback now rnd n [s] w))
     = [(constructor_name s, n, Inr d)]"
proof -
  let ?lg1 = "info now (''Starting intelligent '' @ constructor_name s @ '' for '' @ n) None (logger w)"
  have "run_scraper now n s ([], w) =
     ([] @ [d],
      \<lparr> logger = info now (''Intelligent '' @ constructor_name s @ '' completed for '' @ n) None
          (log_calls now calls ?lg1),
        invocations = invocations w @ [(constructor_name s, n, Inr d)] \<rparr>)"
    by (rule run_scraper_Inr) (rule assms)
  then show ?thesis
    by (simp add: scrapeProductDataWithFallback_def new_invocations_def)
qed

lemma scrape_throws_once:
  assumes "\<And>lg. scrapeProduct s n lg = (Inl err, calls)"
  shows "invocations (snd (scrapeProductDataWithFallback now rnd n [s] w))
     = invocations w @ [(constructor_name s, n, Inl err)]"
proof -
  let ?lg1 = "info now (''Starting intelligent '' @ constructor_name s @ '' for '' @ n) None (logger w)"
  have "run_scraper now n s ([], w) =
     ([],
      \<lparr> logger = warn now (''Scraper '' @ constructor_name s @ '' had issues, but provided fallback data'')
          (Some [(''product'', Str n), (''error'', Str (error_message err))])
          (log_calls now calls ?lg1),
        invocations = invocations w @ [(constructor_name s, n, Inl err)] \<rparr>)"
    by (rule run_scraper_Inl) (rule assms)
  then show ?thesis
    by (simp add: scrapeProductDataWithFallback_def)
qed

lemma ScrapybaraBrowser_blank:
  "ScrapybaraBrowser_scrapeProduct session ''   '' lg =
     (Inl (Error ''Product name is required''),
      [(INFO, ''ScrapybaraBrowser: Starting AI-powered product scrape'', Some [(''product'', Str ''   '')]),
       (ERROR, ''ScrapybaraBrowser: AI scrape failed'',
        Some [(''product'', Str ''   ''), (''error'', Str ''Product name is required'')])])"
  by (simp add: ScrapybaraBrowser_scrapeProduct_def trim_def is_space_def)

lemma POST_Ok_invocations:
  assumes "truthy (product1 body)" "truthy (product2 body)" "truthy (OPENAI_API_KEY e)"
    "methods body = Some ms" "select_scrapers e ms \<noteq> []"
  shows "invocations (snd (POST e body w)) =
     invocations (snd (scrapeProductDataWithFallback (Date_now e) (Math_random2 e)
        (str_or_empty (product2 body)) (select_scrapers e ms)
        (snd (scrapeProductDataWithFallback (Date_now e) (Math_random1 e)
           (str_or_empty (product1 body)) (select_scrapers e ms)
           (w \<lparr> logger := info (Date_now e)
                   ''Starting product comparison with intelligent browser automation''
                   (Some [(''product1'', Str (str_or_empty (product1 body))),
                          (''product2'', Str (str_or_empty (product2 body))),
                          (''methods'', Strs ms)])
                   (logger w) \<rparr>)))))"
  using assms by (simp add: POST_def Let_def split: prod.splits)

subsection \<open>Failures of strategies\<close>




subsection \<open>The shape of the returned rating\<close>

text \<open>
  Claim C5, as the code has it. For every product name and strategy list the aggregation
  returns a record. Its rating is not validated: when some strategy returned a record,
  the rating is the first non-empty rating among the returned records, whatever its
  form (the empty string when there is none). When no strategy returned a record, the
  rating comes from the fallback synthesizer: for a phone-family name it is a number
  with one decimal followed by \<^verbatim>\<open>/5 (estimated)\<close> and matches the pattern
  \<^verbatim>\<open><number>/5...\<close>; for every other name it is the text \<^verbatim>\<open>Rating varies\<close>.
\<close>

theorem scrapeProductDataWithFallback_rating_shape:
  assumes "scrapeProductDataWithFallback now rnd n scrapers w = (m, w')"
  shows "(successes (new_invocations w w') \<noteq> [] \<longrightarrow>
            merged_rating m =
              (case find (\<lambda>r. truthy (rating r)) (successes (new_invocations w w')) of
                 None \<Rightarrow> [] | Some r \<Rightarrow> str_or_empty (rating r)))
       \<and> (successes (new_invocations w w') = [] \<and> isPhone n \<and> 0 \<le> rnd 1 \<longrightarrow>
            merged_rating m = toFixed1 (rnd 1 * (3 / 2) + 7 / 2) @ ''/5 (estimated)''
            \<and> matches_rating_pattern (merged_rating m))
       \<and> (successes (new_invocations w w') = [] \<and> \<not> isPhone n \<longrightarrow>
            merged_rating m = ''Rating varies'')"
proof -
  let ?succ = "successes (new_invocations w w')"
  have m: "m = mergeProductData (if ?succ = [] then [createIntelligentFallback rnd n] else ?succ) n"
    using scrapeProductDataWithFallback_run[OF assms] by blast
  have r: "merged_rating (mergeProductData rs n) =
     (case find (\<lambda>r. truthy (rating r)) rs of None \<Rightarrow> [] | Some r \<Rightarrow> str_or_empty (rating r))" for rs
    by (simp add: mergeProductData_def merged_init_def fold_merge_step_rating fold_assign_if_unset)
  have a: "?succ \<noteq> [] \<longrightarrow> merged_rating m =
      (case find (\<lambda>r. truthy (rating r)) ?succ of None \<Rightarrow> [] | Some r \<Rightarrow> str_or_empty (rating r))"
    using m r by simp
  have b: "?succ = [] \<and> isPhone n \<and> 0 \<le> rnd 1 \<longrightarrow>
      merged_rating m = toFixed1 (rnd 1 * (3 / 2) + 7 / 2) @ ''/5 (estimated)''
      \<and> matches_rating_pattern (merged_rating m)"
  proof (intro impI, elim conjE)
    assume h: "?succ = []" "isPhone n" "0 \<le> rnd 1"
    have "merged_rating m = toFixed1 (rnd 1 * (3 / 2) + 7 / 2) @ ''/5 (estimated)''"
      using m h(1,2) by (simp add: r createIntelligentFallback_def truthy_def str_or_empty_def)
    then show "merged_rating m = toFixed1 (rnd 1 * (3 / 2) + 7 / 2) @ ''/5 (estimated)''
        \<and> matches_rating_pattern (merged_rating m)"
      using fallback_rating_phone[OF h(3)] by simp
  qed
  have c: "?succ = [] \<and> \<not> isPhone n \<longrightarrow> merged_rating m = ''Rating varies''"
    using m by (simp add: r createIntelligentFallback_def truthy_def str_or_empty_def)
  from a b c show ?thesis by blast
qed

text \<open>
  A phone name with all strategies failing, and a strategy that returns a placeholder
  rating.
\<close>

theorem scrapeProductDataWithFallback_rating_shape_witness:
  "merged_rating (fst (scrapeProductDataWithFallback sample_clock (\<lambda>i. 1 / 2) ''iPhone 15'' [timing_out] fresh_world))
     = ''4.3/5 (estimated)''
   \<and> matches_rating_pattern
       (merged_rating (fst (scrapeProductDataWithFallback sample_clock (\<lambda>i. 1 / 2) ''iPhone 15'' [timing_out] fresh_world)))
   \<and> merged_rating (fst (scrapeProductDataWithFallback sample_clock (\<lambda>i. 0) ''Gadget''
         [\<lparr> constructor_name = ''RealPuppeteerScraper'', scrapeProduct = sample_session \<rparr>] fresh_world))
     = ''Rating analysis in progress''"
proof -
  let ?X = "scrapeProductDataWithFallback sample_clock (\<lambda>i. 1 / 2) ''iPhone 15'' [timing_out] fresh_world"
  let ?Y = "scrapeProductDataWithFallback sample_clock (\<lambda>i. 0) ''Gadget''
         [\<lparr> constructor_name = ''RealPuppeteerScraper'', scrapeProduct = sample_session \<rparr>] fresh_world"
  have x: "?X = (fst ?X, snd ?X)" and y: "?Y = (fst ?Y, snd ?Y)" by simp_all
  have ix: "new_invocations fresh_world (snd ?X) = [(''TimingOut'', ''iPhone 15'', Inl (Error ''timeout''))]"
    using scrape_fails_once by blast
  have sx: "successes (new_invocations fresh_world (snd ?X)) = []"
    unfolding ix by (simp add: successes_def)
  have iy: "new_invocations fresh_world (snd ?Y)
      = [(''RealPuppeteerScraper'', ''Gadget'',
          Inr ((blank ''Gadget'') \<lparr> rating := Some ''Rating analysis in progress'' \<rparr>))]"
    using scrape_returns_once[where s = "\<lparr> constructor_name = ''RealPuppeteerScraper'', scrapeProduct = sample_session \<rparr>"
        and n = "''Gadget''" and d = "(blank ''Gadget'') \<lparr> rating := Some ''Rating analysis in progress'' \<rparr>"
        and calls = "[]" and w = fresh_world and now = sample_clock and rnd = "\<lambda>i. 0"]
    by (simp add: sample_session_def)
  have sy: "successes (new_invocations fresh_world (snd ?Y))
      = [(blank ''Gadget'') \<lparr> rating := Some ''Rating analysis in progress'' \<rparr>]"
    unfolding iy by (simp add: successes_def)
  have ph: "isPhone ''iPhone 15''"
    by (simp add: isPhone_def toLowerCase_def toLowerCase_char_def)
  have rn: "(0::rat) \<le> (\<lambda>i. 1 / 2) (1::nat)" by simp
  have tf: "toFixed1 ((\<lambda>i. 1 / 2) (1::nat) * (3 / 2) + 7 / 2) = ''4.3''"
    by (simp add: toFixed1_def digit_char_def)
  from scrapeProductDataWithFallback_rating_shape[OF x] sx ph rn
  have a0: "merged_rating (fst ?X) = toFixed1 ((\<lambda>i. 1 / 2) (1::nat) * (3 / 2) + 7 / 2) @ ''/5 (estimated)''"
    and a1: "matches_rating_pattern (merged_rating (fst ?X))"
    by blast+
  have a: "merged_rating (fst ?X) = ''4.3/5 (estimated)''"
    using a0 unfolding tf by simp
  from scrapeProductDataWithFallback_rating_shape[OF y]
  have "merged_rating (fst ?Y) =
      (case find (\<lambda>r. truthy (rating r)) (successes (new_invocations fresh_world (snd ?Y))) of
         None \<Rightarrow> [] | Some r \<Rightarrow> str_or_empty (rating r))"
    unfolding sy by simp
  then have b: "merged_rating (fst ?Y) = ''Rating analysis in progress''"
    unfolding sy by (simp add: truthy_def str_or_empty_def blank_def)
  from a a1 b show ?thesis by blast
qed

text \<open>
  All strategies fail for \<^verbatim>\<open>Widget X\<close>: the returned rating is present and is not of the form
  \<^verbatim>\<open><number>/5...\<close>.
\<close>

theorem fallback_rating_not_numeric:
  "merged_rating (fst (scrapeProductDataWithFallback sample_clock (\<lambda>i. 0) ''Widget X'' [timing_out, timing_out] fresh_world))
     = ''Rating varies''
   \<and> \<not> matches_rating_pattern
       (merged_rating (fst (scrapeProductDataWithFallback sample_clock (\<lambda>i. 0) ''Widget X'' [timing_out, timing_out] fresh_world)))"
proof -
  have np: "\<not> isPhone ''Widget X''"
    by (simp add: isPhone_def toLowerCase_def toLowerCase_char_def)
  have "fst (scrapeProductDataWithFallback sample_clock (\<lambda>i. 0) ''Widget X'' [timing_out, timing_out] fresh_world)
      = mergeProductData [createIntelligentFallback (\<lambda>i. 0) ''Widget X''] ''Widget X''"
    using scrape_fails_twice by blast
  then have "merged_rating (fst (scrapeProductDataWithFallback sample_clock (\<lambda>i. 0) ''Widget X'' [timing_out, timing_out] fresh_world))
     = ''Rating varies''"
    using np by (simp add: merged_rating_single createIntelligentFallback_def truthy_def str_or_empty_def)
  then show ?thesis using not_rating_varies by simp
qed

subsection \<open>Validation of the request\<close>

text \<open>
  Claim C3, at the input where the code departs from it. A first product name of three
  blanks passes the validation of the handler: the response is status 200, and the
  first strategy was invoked with the blank name (and threw
  \<^verbatim>\<open>Product name is required\<close>, its own validation of the same name).
\<close>

theorem POST_blank_name_runs_strategies:
  "is_Ok (fst (POST sample_env
       \<lparr> product1 = Some ''   '', product2 = Some ''Widget'', methods = Some [''scrapybara''] \<rparr> fresh_world))
   \<and> trim ''   '' = []
   \<and> hd (invocations (snd (POST sample_env
       \<lparr> product1 = Some ''   '', product2 = Some ''Widget'', methods = Some [''scrapybara''] \<rparr> fresh_world)))
     = (''ScrapybaraBrowser'', ''   '', Inl (Error ''Product name is required''))"
proof -
  let ?body = "\<lparr> product1 = Some ''   '', product2 = Some ''Widget'', methods = Some [''scrapybara''] \<rparr>"
  let ?sc = "\<lparr> constructor_name = ''ScrapybaraBrowser'',
      scrapeProduct = ScrapybaraBrowser_scrapeProduct sample_session \<rparr>"
  let ?w0 = "fresh_world \<lparr> logger := info (Date_now sample_env)
                   ''Starting product comparison with intelligent browser automation''
                   (Some [(''product1'', Str (str_or_empty (product1 ?body))),
                          (''product2'', Str (str_or_empty (product2 ?body))),
                          (''methods'', Strs [''scrapybara''])])
                   (logger fresh_world) \<rparr>"
  let ?W1 = "snd (scrapeProductDataWithFallback (Date_now sample_env) (Math_random1 sample_env)
           (str_or_empty (product1 ?body)) (select_scrapers sample_env [''scrapybara'']) ?w0)"
  let ?R2 = "scrapeProductDataWithFallback (Date_now sample_env) (Math_random2 sample_env)
        (str_or_empty (product2 ?body)) (select_scrapers sample_env [''scrapybara'']) ?W1"
  have sel: "select_scrapers sample_env [''scrapybara''] = [?sc]"
    by (simp add: select_scrapers_def sample_env_def)
  have p: "truthy (product1 ?body)" "truthy (product2 ?body)" "truthy (OPENAI_API_KEY sample_env)"
    "methods ?body = Some [''scrapybara'']" "select_scrapers sample_env [''scrapybara''] \<noteq> []"
    by (simp_all add: truthy_def sample_env_def select_scrapers_def)
  have ok: "is_Ok (fst (POST sample_env ?body fresh_world))"
    using p by (rule POST_reaches_Ok)
  have tr: "trim ''   '' = []"
    by (simp add: trim_def is_space_def)
  have i0: "invocations ?w0 = []" by (simp add: fresh_world_def)
  have i1: "invocations ?W1 = [(''ScrapybaraBrowser'', ''   '', Inl (Error ''Product name is required''))]"
    unfolding sel
    using scrape_throws_once[where s = ?sc and n = "''   ''" and err = "Error ''Product name is required''"
        and w = ?w0 and now = "Date_now sample_env" and rnd = "Math_random1 sample_env"]
      ScrapybaraBrowser_blank i0
    by (simp add: str_or_empty_def)
  have r2: "?R2 = (fst ?R2, snd ?R2)" by simp
  have i2: "invocations (snd ?R2) = invocations ?W1 @ new_invocations ?W1 (snd ?R2)"
    using scrapeProductDataWithFallback_run[OF r2] by blast
  have "invocations (snd (POST sample_env ?body fresh_world)) = invocations (snd ?R2)"
    using POST_Ok_invocations[OF p, of fresh_world] by simp
  then have "hd (invocations (snd (POST sample_env ?body fresh_world)))
      = (''ScrapybaraBrowser'', ''   '', Inl (Error ''Product name is required''))"
    using i2 unfolding i1 by simp
  with ok tr show ?thesis by blast
qed

text \<open>In particular the blank name is not answered with the validation error.\<close>

theorem POST_blank_name_runs_strategies_witness:
  "fst (POST sample_env
       \<lparr> product1 = Some ''   '', product2 = Some ''Widget'', methods = Some [''scrapybara''] \<rparr> fresh_world)
     \<noteq> BadRequest ''Both product names are required''"
  using POST_blank_name_runs_strategies by auto

section \<open>Properties on the object store\<close>

subsection \<open>The logger's array and its copies\<close>

lemma logger_okD:
  assumes "logger_ok this h"
  shows "this_logs this < next_ref h"
    and "list_all (\<lambda>r. r < next_ref h) (refs_at h (this_logs this))"
    and "cells h (this_logs this) = Some (Refs (refs_at h (this_logs this)))"
    and "list_all (\<lambda>r. entry_at h r \<noteq> None) (refs_at h (this_logs this))"
  using assms
  by (auto simp: logger_ok_def refs_at_def list_all_iff split: option.splits cell.splits)

lemma refs_at_unchanged: "cells h' a = cells h a \<Longrightarrow> refs_at h' a = refs_at h a"
  by (simp add: refs_at_def)

lemma entry_at_unchanged: "cells h' a = cells h a \<Longrightarrow> entry_at h' a = entry_at h a"
  by (simp add: entry_at_def)

lemma map_filter_entries_unchanged:
  assumes "list_all (\<lambda>r. r < N) rs" "\<And>x. x < N \<Longrightarrow> cells h' x = cells h x"
  shows "List.map_filter (entry_at h') rs = List.map_filter (entry_at h) rs"
  using assms(1)
proof (induction rs)
  case Nil
  then show ?case by (simp add: map_filter_simps)
next
  case (Cons r rs)
  then have "r < N" by simp
  then have "cells h' r = cells h r" by (rule assms(2))
  then have "entry_at h' r = entry_at h r" by (rule entry_at_unchanged)
  then show ?case using Cons by (simp add: map_filter_simps split: option.splits)
qed

lemma filter_entries_unchanged:
  assumes "list_all (\<lambda>r. r < N) rs" "\<And>x. x < N \<Longrightarrow> cells h' x = cells h x"
  shows "filter (\<lambda>r. case entry_at h' r of None \<Rightarrow> False | Some e \<Rightarrow> P e) rs
       = filter (\<lambda>r. case entry_at h r of None \<Rightarrow> False | Some e \<Rightarrow> P e) rs"
  using assms(1)
proof (induction rs)
  case Nil
  then show ?case by simp
next
  case (Cons r rs)
  then have "r < N" by simp
  then have "cells h' r = cells h r" by (rule assms(2))
  then have "entry_at h' r = entry_at h r" by (rule entry_at_unchanged)
  then show ?case using Cons by simp
qed

lemma map_filter_filter_level:
  "List.map_filter f (filter (\<lambda>r. case f r of None \<Rightarrow> False | Some e \<Rightarrow> P e) rs)
     = filter P (List.map_filter f rs)"
  by (induction rs) (auto simp: map_filter_simps split: option.splits)

lemma list_all_filter: "list_all Q rs \<Longrightarrow> list_all Q (filter P rs)"
  by (induction rs) auto

lemma log_content_copy:
  assumes "list_all (\<lambda>r. r < N) rs" "\<And>x. x < N \<Longrightarrow> cells h' x = cells h x"
    "cells h' a = Some (Refs rs)"
  shows "log_content h' a = List.map_filter (entry_at h) rs"
  using map_filter_entries_unchanged[OF assms(1,2)] assms(3)
  by (simp add: log_content_def refs_at_def)

lemma log_content_unchanged:
  assumes "L < N" "list_all (\<lambda>r. r < N) (refs_at h L)" "\<And>x. x < N \<Longrightarrow> cells h' x = cells h x"
  shows "log_content h' L = log_content h L"
proof -
  have "cells h' L = cells h L" using assms(1) by (rule assms(3))
  then have "refs_at h' L = refs_at h L" by (rule refs_at_unchanged)
  then show ?thesis
    using map_filter_entries_unchanged[OF assms(2,3)] by (simp add: log_content_def)
qed

lemma obj_new_MaximLogger_ok:
  "logger_ok (fst (obj_new_MaximLogger src h)) (snd (obj_new_MaximLogger src h))
   \<and> log_content (snd (obj_new_MaximLogger src h)) (this_logs (fst (obj_new_MaximLogger src h))) = []"
  by (simp add: obj_new_MaximLogger_def alloc_def logger_ok_def refs_at_def log_content_def
      map_filter_simps)

lemma map_filter_pointwise:
  "list_all (\<lambda>r. f r = g r) rs \<Longrightarrow> List.map_filter f rs = List.map_filter g rs"
  by (induction rs) (auto simp: map_filter_simps split: option.splits)

lemma list_all_mono': "list_all P rs \<Longrightarrow> (\<And>r. P r \<Longrightarrow> Q r) \<Longrightarrow> list_all Q rs"
  by (induction rs) auto

lemma obj_addLog_ok:
  assumes "logger_ok this h"
  shows "logger_ok this (obj_addLog now lv msg md this h)
     \<and> log_content (obj_addLog now lv msg md this h) (this_logs this) =
         log_content h (this_logs this) @
           [\<lparr> timestamp = now (length (refs_at h (this_logs this))), level = lv, message = msg,
              source = this_source this, metadata = md \<rparr>]
     \<and> (\<forall>x<next_ref h. x \<noteq> this_logs this \<longrightarrow> cells (obj_addLog now lv msg md this h) x = cells h x)"
proof -
  let ?L = "this_logs this"
  let ?N = "next_ref h"
  let ?e = "\<lparr> timestamp = now (length (refs_at h ?L)), level = lv, message = msg,
              source = this_source this, metadata = md \<rparr>"
  let ?h1 = "h \<lparr> cells := (cells h)(?N \<mapsto> Entry ?e), next_ref := Suc ?N \<rparr>"
  let ?h2 = "heap_write ?L (Refs (refs_at h ?L @ [?N])) ?h1"
  note d = logger_okD[OF assms]
  have L: "?L < ?N" and R: "list_all (\<lambda>r. r < ?N) (refs_at h ?L)"
    and C: "cells h ?L = Some (Refs (refs_at h ?L))"
    using d by simp_all
  have r1: "refs_at ?h1 ?L = refs_at h ?L" using L by (simp add: refs_at_def)
  have eq: "obj_addLog now lv msg md this h = ?h2"
    by (simp add: obj_addLog_def alloc_def r1)
  have r2: "refs_at ?h2 ?L = refs_at h ?L @ [?N]" by (simp add: heap_write_def refs_at_def)
  have n2: "next_ref ?h2 = Suc ?N" by (simp add: heap_write_def)
  have pw: "entry_at ?h2 r = entry_at h r" if "r < ?N" for r
    using that C by (cases "r = ?L") (simp_all add: entry_at_def heap_write_def)
  have new: "entry_at ?h2 ?N = Some ?e" using L by (simp add: entry_at_def heap_write_def)
  have V: "list_all (\<lambda>r. r < ?N \<and> entry_at h r \<noteq> None) (refs_at h ?L)"
    using R d(4) by (simp add: list_all_iff)
  have "list_all (\<lambda>r. r < next_ref ?h2 \<and> entry_at ?h2 r \<noteq> None) (refs_at h ?L)"
    using V by (rule list_all_mono') (simp add: pw n2)
  then have ok: "logger_ok this ?h2"
    using L new by (simp add: logger_ok_def heap_write_def)
  have "list_all (\<lambda>r. entry_at ?h2 r = entry_at h r) (refs_at h ?L)"
    using R pw by (rule list_all_mono')
  then have old: "List.map_filter (entry_at ?h2) (refs_at h ?L) = List.map_filter (entry_at h) (refs_at h ?L)"
    by (rule map_filter_pointwise)
  have lc: "log_content ?h2 ?L = log_content h ?L @ [?e]"
    unfolding log_content_def r2 using old new by (simp add: map_filter_def)
  have fr: "\<forall>x<?N. x \<noteq> ?L \<longrightarrow> cells ?h2 x = cells h x" by (simp add: heap_write_def)
  show ?thesis unfolding eq using ok lc fr by blast
qed

lemma length_log_content:
  assumes "logger_ok this h"
  shows "length (log_content h (this_logs this)) = length (refs_at h (this_logs this))"
proof -
  have "list_all (\<lambda>r. entry_at h r \<noteq> None) rs \<Longrightarrow> length (List.map_filter (entry_at h) rs) = length rs"
    for rs by (induction rs) (auto simp: map_filter_simps)
  then show ?thesis using logger_okD(4)[OF assms] by (simp add: log_content_def)
qed

lemma obj_addLog_refines:
  assumes "logger_ok this h"
  shows "abs_logger this (obj_addLog now lv msg md this h) = addLog now lv msg md (abs_logger this h)"
  using obj_addLog_ok[OF assms, of now lv msg md] length_log_content[OF assms]
  by (simp add: abs_logger_def addLog_def)

lemma obj_getLogs_refines:
  assumes "logger_ok this h"
  shows "log_content (snd (obj_getLogs this h)) (fst (obj_getLogs this h)) = getLogs (abs_logger this h)
     \<and> abs_logger this (snd (obj_getLogs this h)) = abs_logger this h
     \<and> logger_ok this (snd (obj_getLogs this h))"
proof -
  let ?L = "this_logs this"
  let ?N = "next_ref h"
  let ?h1 = "h \<lparr> cells := (cells h)(?N \<mapsto> Refs (refs_at h ?L)), next_ref := Suc ?N \<rparr>"
  note d = logger_okD[OF assms]
  have eq: "obj_getLogs this h = (?N, ?h1)" by (simp add: obj_getLogs_def alloc_def)
  have u: "cells ?h1 x = cells h x" if "x < ?N" for x using that by simp
  have a: "log_content ?h1 ?N = log_content h ?L"
    using log_content_copy[OF d(2) u, of ?N] by (simp add: log_content_def)
  have b: "log_content ?h1 ?L = log_content h ?L"
    using d(1,2) u by (rule log_content_unchanged)
  have pw: "entry_at ?h1 r = entry_at h r" if "r < ?N" for r
    using that by (simp add: entry_at_def)
  have V: "list_all (\<lambda>r. r < ?N \<and> entry_at h r \<noteq> None) (refs_at h ?L)"
    using d(2,4) by (simp add: list_all_iff)
  have "list_all (\<lambda>r. r < next_ref ?h1 \<and> entry_at ?h1 r \<noteq> None) (refs_at h ?L)"
    using V by (rule list_all_mono') (simp add: pw)
  then have c: "logger_ok this ?h1"
    using d(1,3) by (simp add: logger_ok_def)
  show ?thesis unfolding eq using a b c by (simp add: abs_logger_def getLogs_def)
qed

text \<open>
  The copy is shallow: the returned array holds the addresses of the same entry objects.
\<close>

lemma obj_getLogs_shallow:
  "refs_at (snd (obj_getLogs this h)) (fst (obj_getLogs this h)) = refs_at h (this_logs this)"
  by (simp add: obj_getLogs_def alloc_def refs_at_def)

lemma sample_logger_content:
  "logger_ok (fst sample_logger) (snd sample_logger)
   \<and> log_content (snd sample_logger) (this_logs (fst sample_logger)) =
       [\<lparr> timestamp = ''t0'', level = INFO, message = ''first'',
          source = ''ProductComparisonAgent'', metadata = None \<rparr>,
        \<lparr> timestamp = ''t1'', level = WARN, message = ''second'',
          source = ''ProductComparisonAgent'', metadata = None \<rparr>]"
  by (simp add: sample_logger_def obj_new_MaximLogger_def obj_addLog_def alloc_def heap_write_def
      empty_heap_def logger_ok_def refs_at_def log_content_def map_filter_simps entry_at_def
      sample_clock_def digit_char_def)

text \<open>
  Claim C10. For every state of the logger, \<^verbatim>\<open>getLogs\<close> returns a new array: its address is
  the next free one, different from that of the internal array, and it holds the entries
  of the internal array. Whatever the caller then stores in the returned array (any
  sequence of pushes, removals, assignments to slots or to the length leaves some array
  \<open>rs\<close> there), the internal array holds the entries it held, and a subsequent \<^verbatim>\<open>getLogs\<close>,
  \<^verbatim>\<open>getLogsByLevel\<close> and \<^verbatim>\<open>getLogsSummary\<close> return exactly those entries, those of them with
  the level asked for, and their summary. (The copy is shallow: the two arrays hold the
  same entry objects. The statement is about mutating the array.)
\<close>

theorem getLogs_returns_fresh_copy:
  assumes "logger_ok this h" and "obj_getLogs this h = (a, h1)"
  shows "a = next_ref h \<and> a \<noteq> this_logs this
     \<and> log_content h1 a = log_content h (this_logs this)
     \<and> log_content (heap_write a (Refs rs) h1) (this_logs this) = log_content h (this_logs this)
     \<and> log_content (snd (obj_getLogs this (heap_write a (Refs rs) h1)))
          (fst (obj_getLogs this (heap_write a (Refs rs) h1))) = log_content h (this_logs this)
     \<and> log_content (snd (obj_getLogsByLevel lv this (heap_write a (Refs rs) h1)))
          (fst (obj_getLogsByLevel lv this (heap_write a (Refs rs) h1)))
        = filter (\<lambda>log. level log = lv) (log_content h (this_logs this))
     \<and> obj_getLogsSummary this (heap_write a (Refs rs) h1) = summary_of (log_content h (this_logs this))"
proof -
  let ?L = "this_logs this"
  let ?N = "next_ref h"
  let ?h2 = "heap_write a (Refs rs) h1"
  have L: "?L < ?N" and R: "list_all (\<lambda>r. r < ?N) (refs_at h ?L)"
    using logger_okD[OF assms(1)] by simp_all
  have a: "a = ?N" and h1: "h1 = h \<lparr> cells := (cells h)(?N \<mapsto> Refs (refs_at h ?L)), next_ref := Suc ?N \<rparr>"
    using assms(2) by (auto simp: obj_getLogs_def alloc_def)
  have u1: "cells h1 x = cells h x" if "x < ?N" for x using that by (simp add: h1)
  have u2: "cells ?h2 x = cells h x" if "x < ?N" for x using that by (simp add: h1 a heap_write_def)
  have c1: "a \<noteq> ?L" using L a by simp
  have c2: "log_content h1 a = log_content h ?L"
    using log_content_copy[OF R u1, of a] by (simp add: h1 a log_content_def)
  have c3: "log_content ?h2 ?L = log_content h ?L"
    using L R u2 by (rule log_content_unchanged)
  have r2: "refs_at ?h2 ?L = refs_at h ?L"
    using u2[OF L] by (rule refs_at_unchanged)
  have n2: "next_ref ?h2 = Suc ?N" by (simp add: heap_write_def h1)
  obtain b h3 where g: "obj_getLogs this ?h2 = (b, h3)" by (cases "obj_getLogs this ?h2")
  have b: "b = Suc ?N" and h3c: "cells h3 = (cells ?h2)(Suc ?N \<mapsto> Refs (refs_at h ?L))"
    using g r2 n2 by (auto simp: obj_getLogs_def alloc_def)
  have u3: "cells h3 x = cells h x" if "x < ?N" for x using that u2 by (simp add: h3c)
  have c4: "log_content h3 b = log_content h ?L"
    using log_content_copy[OF R u3, of b] by (simp add: h3c b log_content_def)
  obtain d h4 where gl: "obj_getLogsByLevel lv this ?h2 = (d, h4)"
    by (cases "obj_getLogsByLevel lv this ?h2")
  let ?sel = "filter (\<lambda>r. case entry_at h r of None \<Rightarrow> False | Some e \<Rightarrow> level e = lv) (refs_at h ?L)"
  have sel: "filter (\<lambda>r. case entry_at ?h2 r of None \<Rightarrow> False | Some e \<Rightarrow> level e = lv) (refs_at h ?L) = ?sel"
    using R u2 by (rule filter_entries_unchanged)
  have d: "d = Suc ?N" and h4c: "cells h4 = (cells ?h2)(Suc ?N \<mapsto> Refs ?sel)"
    using gl r2 n2 sel by (auto simp: obj_getLogsByLevel_def alloc_def)
  have u4: "cells h4 x = cells h x" if "x < ?N" for x using that u2 by (simp add: h4c)
  have Rs: "list_all (\<lambda>r. r < ?N) ?sel" using R by (rule list_all_filter)
  have "log_content h4 d = List.map_filter (entry_at h) ?sel"
    using log_content_copy[OF Rs u4, of d] by (simp add: h4c d)
  then have c5: "log_content h4 d = filter (\<lambda>log. level log = lv) (log_content h ?L)"
    by (simp add: map_filter_filter_level log_content_def)
  have c6: "obj_getLogsSummary this ?h2 = summary_of (log_content h ?L)"
    by (simp add: obj_getLogsSummary_def c3)
  have c4': "log_content (snd (obj_getLogs this ?h2)) (fst (obj_getLogs this ?h2)) = log_content h ?L"
    using c4 by (simp add: g)
  have c5': "log_content (snd (obj_getLogsByLevel lv this ?h2)) (fst (obj_getLogsByLevel lv this ?h2))
      = filter (\<lambda>log. level log = lv) (log_content h ?L)"
    using c5 by (simp add: gl)
  from a c1 c2 c3 c4' c5' c6 show ?thesis by blast
qed

text \<open>The caller empties the array it got from a logger with two entries.\<close>

theorem getLogs_returns_fresh_copy_witness:
  "log_content (heap_write (fst (obj_getLogs (fst sample_logger) (snd sample_logger))) (Refs [])
        (snd (obj_getLogs (fst sample_logger) (snd sample_logger))))
     (this_logs (fst sample_logger))
   = [\<lparr> timestamp = ''t0'', level = INFO, message = ''first'',
        source = ''ProductComparisonAgent'', metadata = None \<rparr>,
      \<lparr> timestamp = ''t1'', level = WARN, message = ''second'',
        source = ''ProductComparisonAgent'', metadata = None \<rparr>]
   \<and> fst (obj_getLogs (fst sample_logger) (snd sample_logger)) \<noteq> this_logs (fst sample_logger)
   \<and> total (obj_getLogsSummary (fst sample_logger)
        (heap_write (fst (obj_getLogs (fst sample_logger) (snd sample_logger))) (Refs [])
           (snd (obj_getLogs (fst sample_logger) (snd sample_logger))))) = 2"
proof -
  let ?lg = "fst sample_logger"
  let ?h = "snd sample_logger"
  let ?es = "[\<lparr> timestamp = ''t0'', level = INFO, message = ''first'',
        source = ''ProductComparisonAgent'', metadata = None \<rparr>,
      \<lparr> timestamp = ''t1'', level = WARN, message = ''second'',
        source = ''ProductComparisonAgent'', metadata = None \<rparr>]"
  have ok: "logger_ok ?lg ?h" and c: "log_content ?h (this_logs ?lg) = ?es"
    using sample_logger_content by blast+
  have g: "obj_getLogs ?lg ?h = (fst (obj_getLogs ?lg ?h), snd (obj_getLogs ?lg ?h))" by simp
  note t = getLogs_returns_fresh_copy[OF ok g, where rs = "[]" and lv = WARN]
  have t1: "log_content (heap_write (fst (obj_getLogs ?lg ?h)) (Refs []) (snd (obj_getLogs ?lg ?h)))
      (this_logs ?lg) = ?es"
    using t unfolding c by blast
  have t2: "fst (obj_getLogs ?lg ?h) \<noteq> this_logs ?lg" using t by blast
  have "obj_getLogsSummary ?lg
      (heap_write (fst (obj_getLogs ?lg ?h)) (Refs []) (snd (obj_getLogs ?lg ?h))) = summary_of ?es"
    using t unfolding c by blast
  then have t3: "total (obj_getLogsSummary ?lg
      (heap_write (fst (obj_getLogs ?lg ?h)) (Refs []) (snd (obj_getLogs ?lg ?h)))) = 2"
    by (simp add: summary_of_def)
  from t1 t2 t3 show ?thesis by blast
qed

subsection \<open>The merge on the store\<close>

lemma merged_okD:
  assumes "merged_ok N m h"
  obtains mg where "cells h m = Some (MergedCell mg)" "N \<le> m" "m < next_ref h"
    "N \<le> mobj_features mg" "mobj_features mg < next_ref h" "mobj_features mg \<noteq> m"
    "N \<le> mobj_images mg" "mobj_images mg < next_ref h" "mobj_images mg \<noteq> m"
    "N \<le> mobj_specifications mg" "mobj_specifications mg < next_ref h" "mobj_specifications mg \<noteq> m"
  using assms by (auto simp: merged_ok_def split: option.splits cell.splits)

lemma assign_scalars_ok:
  assumes "merged_ok N m h" "r < N"
  shows "(\<forall>x<N. cells (assign_scalars m r h) x = cells h x)
     \<and> merged_ok N m (assign_scalars m r h)
     \<and> read_merged (assign_scalars m r h) m =
         (read_merged h m)
           \<lparr> merged_price := assign_if_unset (price (read_product h r)) (merged_price (read_merged h m)),
             merged_rating := assign_if_unset (rating (read_product h r)) (merged_rating (read_merged h m)),
             merged_description :=
               assign_if_unset (description (read_product h r)) (merged_description (read_merged h m)),
             merged_availability :=
               assign_if_unset (availability (read_product h r)) (merged_availability (read_merged h m)) \<rparr>"
proof -
  from assms(1) obtain mg where mg: "cells h m = Some (MergedCell mg)" "N \<le> m" "m < next_ref h"
    "N \<le> mobj_features mg" "mobj_features mg < next_ref h" "mobj_features mg \<noteq> m"
    "N \<le> mobj_images mg" "mobj_images mg < next_ref h" "mobj_images mg \<noteq> m"
    "N \<le> mobj_specifications mg" "mobj_specifications mg < next_ref h" "mobj_specifications mg \<noteq> m"
    by (rule merged_okD)
  show ?thesis
  proof (cases "product_at h r")
    case None
    then show ?thesis
      using assms(1) by (simp add: assign_scalars_def read_product_def blank_def assign_if_unset_def)
  next
    case (Some p)
    then show ?thesis
      using mg
      by (simp add: assign_scalars_def set_merged_def heap_write_def merged_at_def read_merged_def
          read_product_def merged_ok_def strings_at_def dict_at_def)
  qed
qed

lemma assign_features_ok:
  assumes "merged_ok N m h" "input_ok N h0 r" "\<forall>x<N. cells h x = cells h0 x"
  shows "(\<forall>x<N. cells (assign_features m r h) x = cells h x)
     \<and> merged_ok N m (assign_features m r h)
     \<and> read_merged (assign_features m r h) m =
         (read_merged h m)
           \<lparr> merged_features :=
               (case features (read_product h r) of
                  None \<Rightarrow> merged_features (read_merged h m)
                | Some fs \<Rightarrow> new_Set (merged_features (read_merged h m) @ fs)) \<rparr>"
proof -
  from assms(1) obtain mg where mg: "cells h m = Some (MergedCell mg)" "N \<le> m" "m < next_ref h"
    "N \<le> mobj_features mg" "mobj_features mg < next_ref h" "mobj_features mg \<noteq> m"
    "N \<le> mobj_images mg" "mobj_images mg < next_ref h" "mobj_images mg \<noteq> m"
    "N \<le> mobj_specifications mg" "mobj_specifications mg < next_ref h" "mobj_specifications mg \<noteq> m"
    by (rule merged_okD)
  have r: "r < N" using assms(2) by (simp add: input_ok_def)
  have pr: "product_at h r = product_at h0 r" using assms(3) r by (simp add: product_at_def)
  show ?thesis
  proof (cases "product_at h r")
    case None
    then show ?thesis
      using assms(1) by (simp add: assign_features_def read_product_def blank_def)
  next
    case (Some p)
    show ?thesis
    proof (cases "obj_features p")
      case None
      then show ?thesis
        using Some assms(1) by (simp add: assign_features_def read_product_def)
    next
      case (Some fr)
      have fr: "fr < N" using assms(2) \<open>product_at h r = Some p\<close> pr Some
        by (simp add: input_ok_def)
      show ?thesis
        using mg fr r Some \<open>product_at h r = Some p\<close>
        by (simp add: assign_features_def alloc_def set_merged_def heap_write_def merged_at_def
            read_merged_def read_product_def merged_ok_def strings_at_def dict_at_def)
    qed
  qed
qed

lemma assign_images_ok:
  assumes "merged_ok N m h" "input_ok N h0 r" "\<forall>x<N. cells h x = cells h0 x"
  shows "(\<forall>x<N. cells (assign_images m r h) x = cells h x)
     \<and> merged_ok N m (assign_images m r h)
     \<and> read_merged (assign_images m r h) m =
         (read_merged h m)
           \<lparr> merged_images :=
               (case images (read_product h r) of
                  None \<Rightarrow> merged_images (read_merged h m)
                | Some is \<Rightarrow> new_Set (merged_images (read_merged h m) @ is)) \<rparr>"
proof -
  from assms(1) obtain mg where mg: "cells h m = Some (MergedCell mg)" "N \<le> m" "m < next_ref h"
    "N \<le> mobj_features mg" "mobj_features mg < next_ref h" "mobj_features mg \<noteq> m"
    "N \<le> mobj_images mg" "mobj_images mg < next_ref h" "mobj_images mg \<noteq> m"
    "N \<le> mobj_specifications mg" "mobj_specifications mg < next_ref h" "mobj_specifications mg \<noteq> m"
    by (rule merged_okD)
  have r: "r < N" using assms(2) by (simp add: input_ok_def)
  have pr: "product_at h r = product_at h0 r" using assms(3) r by (simp add: product_at_def)
  show ?thesis
  proof (cases "product_at h r")
    case None
    then show ?thesis
      using assms(1) by (simp add: assign_images_def read_product_def blank_def)
  next
    case (Some p)
    show ?thesis
    proof (cases "obj_images p")
      case None
      then show ?thesis
        using Some assms(1) by (simp add: assign_images_def read_product_def)
    next
      case (Some ir)
      have ir: "ir < N" using assms(2) \<open>product_at h r = Some p\<close> pr Some
        by (simp add: input_ok_def)
      show ?thesis
        using mg ir r Some \<open>product_at h r = Some p\<close>
        by (simp add: assign_images_def alloc_def set_merged_def heap_write_def merged_at_def
            read_merged_def read_product_def merged_ok_def strings_at_def dict_at_def)
    qed
  qed
qed

lemma assign_specifications_ok:
  assumes "merged_ok N m h" "input_ok N h0 r" "\<forall>x<N. cells h x = cells h0 x"
  shows "(\<forall>x<N. cells (assign_specifications m r h) x = cells h x)
     \<and> merged_ok N m (assign_specifications m r h)
     \<and> read_merged (assign_specifications m r h) m =
         (read_merged h m)
           \<lparr> merged_specifications :=
               (case specifications (read_product h r) of
                  None \<Rightarrow> merged_specifications (read_merged h m)
                | Some sp \<Rightarrow> merged_specifications (read_merged h m) ++ sp) \<rparr>"
proof -
  from assms(1) obtain mg where mg: "cells h m = Some (MergedCell mg)" "N \<le> m" "m < next_ref h"
    "N \<le> mobj_features mg" "mobj_features mg < next_ref h" "mobj_features mg \<noteq> m"
    "N \<le> mobj_images mg" "mobj_images mg < next_ref h" "mobj_images mg \<noteq> m"
    "N \<le> mobj_specifications mg" "mobj_specifications mg < next_ref h" "mobj_specifications mg \<noteq> m"
    by (rule merged_okD)
  have r: "r < N" using assms(2) by (simp add: input_ok_def)
  have pr: "product_at h r = product_at h0 r" using assms(3) r by (simp add: product_at_def)
  show ?thesis
  proof (cases "product_at h r")
    case None
    then show ?thesis
      using assms(1) by (simp add: assign_specifications_def read_product_def blank_def)
  next
    case (Some p)
    show ?thesis
    proof (cases "obj_specifications p")
      case None
      then show ?thesis
        using Some assms(1) by (simp add: assign_specifications_def read_product_def)
    next
      case (Some sr)
      have sr: "sr < N" using assms(2) \<open>product_at h r = Some p\<close> pr Some
        by (simp add: input_ok_def)
      show ?thesis
        using mg sr r Some \<open>product_at h r = Some p\<close>
        by (simp add: assign_specifications_def alloc_def set_merged_def heap_write_def merged_at_def
            read_merged_def read_product_def merged_ok_def strings_at_def dict_at_def)
    qed
  qed
qed

lemma read_product_unchanged:
  assumes "input_ok N h0 r" "\<forall>x<N. cells h x = cells h0 x"
  shows "read_product h r = read_product h0 r"
proof -
  have r: "r < N" using assms(1) by (simp add: input_ok_def)
  have pr: "product_at h r = product_at h0 r" using assms(2) r by (simp add: product_at_def)
  from assms(1) obtain p where p: "product_at h0 r = Some p"
    and f: "case obj_features p of None \<Rightarrow> True | Some a \<Rightarrow> a < N"
    and i: "case obj_images p of None \<Rightarrow> True | Some a \<Rightarrow> a < N"
    and s: "case obj_specifications p of None \<Rightarrow> True | Some a \<Rightarrow> a < N"
    by (auto simp: input_ok_def split: option.splits)
  have ff: "map_option (strings_at h) (obj_features p) = map_option (strings_at h0) (obj_features p)"
    using f assms(2) by (cases "obj_features p") (simp_all add: strings_at_def)
  have ii: "map_option (strings_at h) (obj_images p) = map_option (strings_at h0) (obj_images p)"
    using i assms(2) by (cases "obj_images p") (simp_all add: strings_at_def)
  have ss: "map_option (dict_at h) (obj_specifications p) = map_option (dict_at h0) (obj_specifications p)"
    using s assms(2) by (cases "obj_specifications p") (simp_all add: dict_at_def)
  show ?thesis
    by (simp add: read_product_def pr p ff ii ss)
qed

lemma merge_step_obj_ok:
  assumes "merged_ok N m h" "input_ok N h0 r" "\<forall>x<N. cells h x = cells h0 x"
  shows "(\<forall>x<N. cells (merge_step_obj m r h) x = cells h0 x)
     \<and> merged_ok N m (merge_step_obj m r h)
     \<and> read_merged (merge_step_obj m r h) m = merge_step (read_product h0 r) (read_merged h m)"
proof -
  have r: "r < N" using assms(2) by (simp add: input_ok_def)
  let ?h1 = "assign_scalars m r h"
  let ?h2 = "assign_features m r ?h1"
  let ?h3 = "assign_images m r ?h2"
  let ?h4 = "assign_specifications m r ?h3"
  note s1 = assign_scalars_ok[OF assms(1) r]
  have u1: "\<forall>x<N. cells ?h1 x = cells h0 x" using s1 assms(3) by simp
  have m1: "merged_ok N m ?h1" using s1 by simp
  note s2 = assign_features_ok[OF m1 assms(2) u1]
  have u2: "\<forall>x<N. cells ?h2 x = cells h0 x" using s2 u1 by simp
  have m2: "merged_ok N m ?h2" using s2 by simp
  note s3 = assign_images_ok[OF m2 assms(2) u2]
  have u3: "\<forall>x<N. cells ?h3 x = cells h0 x" using s3 u2 by simp
  have m3: "merged_ok N m ?h3" using s3 by simp
  note s4 = assign_specifications_ok[OF m3 assms(2) u3]
  have u4: "\<forall>x<N. cells ?h4 x = cells h0 x" using s4 u3 by simp
  have m4: "merged_ok N m ?h4" using s4 by simp
  have p0: "read_product h r = read_product h0 r" using assms(2,3) by (rule read_product_unchanged)
  have p1: "read_product ?h1 r = read_product h0 r" using assms(2) u1 by (rule read_product_unchanged)
  have p2: "read_product ?h2 r = read_product h0 r" using assms(2) u2 by (rule read_product_unchanged)
  have p3: "read_product ?h3 r = read_product h0 r" using assms(2) u3 by (rule read_product_unchanged)
  have e1: "read_merged ?h1 m = (read_merged h m)
           \<lparr> merged_price := assign_if_unset (price (read_product h0 r)) (merged_price (read_merged h m)),
             merged_rating := assign_if_unset (rating (read_product h0 r)) (merged_rating (read_merged h m)),
             merged_description :=
               assign_if_unset (description (read_product h0 r)) (merged_description (read_merged h m)),
             merged_availability :=
               assign_if_unset (availability (read_product h0 r)) (merged_availability (read_merged h m)) \<rparr>"
    using s1 unfolding p0 by simp
  have e2: "read_merged ?h2 m = (read_merged ?h1 m)
           \<lparr> merged_features :=
               (case features (read_product h0 r) of
                  None \<Rightarrow> merged_features (read_merged ?h1 m)
                | Some fs \<Rightarrow> new_Set (merged_features (read_merged ?h1 m) @ fs)) \<rparr>"
    using s2 unfolding p1 by simp
  have e3: "read_merged ?h3 m = (read_merged ?h2 m)
           \<lparr> merged_images :=
               (case images (read_product h0 r) of
                  None \<Rightarrow> merged_images (read_merged ?h2 m)
                | Some is \<Rightarrow> new_Set (merged_images (read_merged ?h2 m) @ is)) \<rparr>"
    using s3 unfolding p2 by simp
  have e4: "read_merged ?h4 m = (read_merged ?h3 m)
           \<lparr> merged_specifications :=
               (case specifications (read_product h0 r) of
                  None \<Rightarrow> merged_specifications (read_merged ?h3 m)
                | Some sp \<Rightarrow> merged_specifications (read_merged ?h3 m) ++ sp) \<rparr>"
    using s4 unfolding p3 by simp
  have e: "read_merged ?h4 m = merge_step (read_product h0 r) (read_merged h m)"
    unfolding e4 e3 e2 e1 by (simp add: merge_step_def split: option.splits)
  show ?thesis
    unfolding merge_step_obj_def using u4 m4 e by blast
qed

lemma fold_merge_step_obj_ok:
  assumes "merged_ok N m h" "list_all (input_ok N h0) rs" "\<forall>x<N. cells h x = cells h0 x"
  shows "(\<forall>x<N. cells (fold (merge_step_obj m) rs h) x = cells h0 x)
     \<and> merged_ok N m (fold (merge_step_obj m) rs h)
     \<and> read_merged (fold (merge_step_obj m) rs h) m
         = fold merge_step (map (read_product h0) rs) (read_merged h m)"
  using assms
proof (induction rs arbitrary: h)
  case Nil
  then show ?case by simp
next
  case (Cons r rs)
  have i: "input_ok N h0 r" and irs: "list_all (input_ok N h0) rs" using Cons.prems(2) by simp_all
  note st = merge_step_obj_ok[OF Cons.prems(1) i Cons.prems(3)]
  have a: "merged_ok N m (merge_step_obj m r h)" using st by blast
  have b: "\<forall>x<N. cells (merge_step_obj m r h) x = cells h0 x" using st by blast
  have c: "read_merged (merge_step_obj m r h) m = merge_step (read_product h0 r) (read_merged h m)"
    using st by blast
  from Cons.IH[OF a irs b] show ?case by (simp add: c)
qed

lemma input_ok_mono:
  assumes "input_ok N h r" "N \<le> N'" "\<forall>x<N. cells h' x = cells h x"
  shows "input_ok N' h' r"
proof -
  have r: "r < N" using assms(1) by (simp add: input_ok_def)
  have pr: "product_at h' r = product_at h r" using assms(3) r by (simp add: product_at_def)
  show ?thesis
    using assms(1,2) unfolding input_ok_def pr
    by (auto split: option.splits)
qed

lemma list_all_input_ok_mono:
  assumes "list_all (input_ok N h) rs" "N \<le> N'" "\<forall>x<N. cells h' x = cells h x"
  shows "list_all (input_ok N' h') rs"
  using assms(1)
proof (induction rs)
  case Nil
  then show ?case by simp
next
  case (Cons r rs)
  then have "input_ok N h r" by simp
  then have "input_ok N' h' r" using assms(2,3) by (rule input_ok_mono)
  then show ?case using Cons by simp
qed

lemma map_read_product_unchanged:
  assumes "list_all (input_ok N h0) rs" "\<forall>x<N. cells h x = cells h0 x"
  shows "map (read_product h) rs = map (read_product h0) rs"
  using assms(1)
proof (induction rs)
  case Nil
  then show ?case by simp
next
  case (Cons r rs)
  then have "input_ok N h0 r" by simp
  then have "read_product h r = read_product h0 r" using assms(2) by (rule read_product_unchanged)
  then show ?case using Cons by simp
qed

lemma read_merged_unchanged:
  assumes "merged_ok N m h" "\<forall>x<next_ref h. cells h' x = cells h x"
  shows "read_merged h' m = read_merged h m"
proof -
  from assms(1) obtain mg where mg: "cells h m = Some (MergedCell mg)" "N \<le> m" "m < next_ref h"
    "N \<le> mobj_features mg" "mobj_features mg < next_ref h" "mobj_features mg \<noteq> m"
    "N \<le> mobj_images mg" "mobj_images mg < next_ref h" "mobj_images mg \<noteq> m"
    "N \<le> mobj_specifications mg" "mobj_specifications mg < next_ref h" "mobj_specifications mg \<noteq> m"
    by (rule merged_okD)
  have "cells h' m = Some (MergedCell mg)" using assms(2) mg(1,3) by simp
  then show ?thesis
    using mg assms(2)
    by (simp add: read_merged_def merged_at_def strings_at_def dict_at_def)
qed

lemma mergeProductData_obj_correct:
  assumes "results < next_ref h"
    and "list_all (input_ok (next_ref h) h) (refs_at h results)"
    and "mergeProductData_obj results n h = (m, h')"
  shows "(\<forall>x<next_ref h. cells h' x = cells h x)
     \<and> merged_ok (next_ref h) m h'
     \<and> read_merged h' m = mergeProductData (map (read_product h) (refs_at h results)) n"
proof -
  let ?N = "next_ref h"
  let ?h1 = "h \<lparr> cells := (cells h)(?N \<mapsto> Strings []), next_ref := Suc ?N \<rparr>"
  let ?h2 = "?h1 \<lparr> cells := (cells ?h1)(Suc ?N \<mapsto> Strings []), next_ref := Suc (Suc ?N) \<rparr>"
  let ?h3 = "?h2 \<lparr> cells := (cells ?h2)(Suc (Suc ?N) \<mapsto> Dict Map.empty),
                   next_ref := Suc (Suc (Suc ?N)) \<rparr>"
  let ?mg = "\<lparr> mobj_name = n, mobj_price = [], mobj_rating = [], mobj_features = ?N,
               mobj_description = [], mobj_availability = [], mobj_images = Suc ?N,
               mobj_specifications = Suc (Suc ?N) \<rparr>"
  let ?h4 = "?h3 \<lparr> cells := (cells ?h3)(Suc (Suc (Suc ?N)) \<mapsto> MergedCell ?mg),
                   next_ref := Suc (Suc (Suc (Suc ?N))) \<rparr>"
  have m: "m = Suc (Suc (Suc ?N))" and h': "h' = fold (merge_step_obj m) (refs_at ?h4 results) ?h4"
    using assms(3) by (auto simp: mergeProductData_obj_def alloc_def)
  have u4: "\<forall>x<?N. cells ?h4 x = cells h x" by simp
  have rr: "refs_at ?h4 results = refs_at h results"
    using assms(1) by (simp add: refs_at_def)
  have ok4: "merged_ok ?N m ?h4" by (simp add: merged_ok_def m)
  have rm4: "read_merged ?h4 m = merged_init n"
    by (simp add: read_merged_def merged_at_def strings_at_def dict_at_def merged_init_def m)
  have hh: "h' = fold (merge_step_obj m) (refs_at h results) ?h4"
    using h' unfolding rr .
  note f = fold_merge_step_obj_ok[OF ok4 assms(2) u4]
  from f have a: "\<forall>x<?N. cells (fold (merge_step_obj m) (refs_at h results) ?h4) x = cells h x"
    and b: "merged_ok ?N m (fold (merge_step_obj m) (refs_at h results) ?h4)"
    and c0: "read_merged (fold (merge_step_obj m) (refs_at h results) ?h4) m
        = fold merge_step (map (read_product h) (refs_at h results)) (read_merged ?h4 m)"
    by blast+
  have c: "read_merged (fold (merge_step_obj m) (refs_at h results) ?h4) m
      = mergeProductData (map (read_product h) (refs_at h results)) n"
    unfolding c0 rm4 mergeProductData_def ..
  from a b c show ?thesis unfolding hh by blast
qed

lemma sample_heap_ok:
  "5 < next_ref sample_heap
   \<and> refs_at sample_heap 5 = [2, 4]
   \<and> list_all (input_ok (next_ref sample_heap) sample_heap) (refs_at sample_heap 5)"
  by (simp add: sample_heap_def refs_at_def input_ok_def product_at_def)

lemma sample_heap_read:
  "map (read_product sample_heap) [2, 4] =
     [(blank ''W'') \<lparr> price := Some ''$10'', features := Some [''a'', ''b''],
         specifications := Some [''A'' \<mapsto> ''1''] \<rparr>,
      (blank ''W'') \<lparr> price := Some ''$20'', features := Some [''b'', ''c''] \<rparr>]"
  by (simp add: sample_heap_def read_product_def product_at_def strings_at_def dict_at_def blank_def)

text \<open>
  Claim C9. The record merge is a function of the content of its input sequence and
  mutates none of its inputs. For a \<^verbatim>\<open>results\<close> array whose records, arrays and
  specifications are allocated before the call: every cell allocated before the call is
  the same after it, so the array \<^verbatim>\<open>results\<close> and its records read as before; the merged
  object is a new object; the content of the merged object is \<open>mergeProductData\<close> of the
  content of the inputs, a pure function; and merging the same sequence a second time
  yields a second object with identical content and leaves the first result and the
  inputs as they were.
\<close>

theorem mergeProductData_pure_and_frame:
  assumes "results < next_ref h"
    and "list_all (input_ok (next_ref h) h) (refs_at h results)"
    and "mergeProductData_obj results n h = (m, h')"
    and "mergeProductData_obj results n h' = (m2, h'')"
  shows "(\<forall>x<next_ref h. cells h' x = cells h x)
     \<and> next_ref h \<le> m
     \<and> map (read_product h') (refs_at h' results) = map (read_product h) (refs_at h results)
     \<and> read_merged h' m = mergeProductData (map (read_product h) (refs_at h results)) n
     \<and> read_merged h'' m2 = read_merged h' m
     \<and> read_merged h'' m = read_merged h' m
     \<and> map (read_product h'') (refs_at h'' results) = map (read_product h) (refs_at h results)"
proof -
  let ?N = "next_ref h"
  note c1 = mergeProductData_obj_correct[OF assms(1,2,3)]
  have u1: "\<forall>x<?N. cells h' x = cells h x" using c1 by blast
  have ok1: "merged_ok ?N m h'" using c1 by blast
  have r1: "read_merged h' m = mergeProductData (map (read_product h) (refs_at h results)) n"
    using c1 by blast
  from ok1 have mN: "?N \<le> m" and mN': "m < next_ref h'"
    by (auto elim: merged_okD)
  have le: "?N \<le> next_ref h'" using mN mN' by simp
  have rr1: "refs_at h' results = refs_at h results"
    using u1 assms(1) by (simp add: refs_at_def)
  have in1: "map (read_product h') (refs_at h results) = map (read_product h) (refs_at h results)"
    using assms(2) u1 by (rule map_read_product_unchanged)
  have res': "results < next_ref h'" using assms(1) le by simp
  have ok': "list_all (input_ok (next_ref h') h') (refs_at h' results)"
    unfolding rr1 using assms(2) le u1 by (rule list_all_input_ok_mono)
  note c2 = mergeProductData_obj_correct[OF res' ok' assms(4)]
  have u2: "\<forall>x<next_ref h'. cells h'' x = cells h' x" using c2 by blast
  have r2: "read_merged h'' m2 = mergeProductData (map (read_product h') (refs_at h' results)) n"
    using c2 by blast
  have e2: "read_merged h'' m2 = read_merged h' m"
    unfolding r2 r1 rr1 in1 by simp
  have k: "read_merged h'' m = read_merged h' m"
    using ok1 u2 by (rule read_merged_unchanged)
  have u02: "\<forall>x<?N. cells h'' x = cells h x" using u1 u2 le by simp
  have rr2: "refs_at h'' results = refs_at h results"
    using u02 assms(1) by (simp add: refs_at_def)
  have in2: "map (read_product h'') (refs_at h results) = map (read_product h) (refs_at h results)"
    using assms(2) u02 by (rule map_read_product_unchanged)
  show ?thesis
    using u1 mN r1 e2 k by (simp add: rr1 in1 rr2 in2)
qed

text \<open>Two records with overlapping features, merged twice.\<close>

theorem mergeProductData_pure_and_frame_witness:
  "cells (snd (mergeProductData_obj 5 ''W'' sample_heap)) 0 = Some (Strings [''a'', ''b''])
   \<and> merged_price (read_merged (snd (mergeProductData_obj 5 ''W'' sample_heap))
        (fst (mergeProductData_obj 5 ''W'' sample_heap))) = ''$10''
   \<and> merged_features (read_merged (snd (mergeProductData_obj 5 ''W'' sample_heap))
        (fst (mergeProductData_obj 5 ''W'' sample_heap))) = [''a'', ''b'', ''c'']
   \<and> read_merged (snd (mergeProductData_obj 5 ''W'' (snd (mergeProductData_obj 5 ''W'' sample_heap))))
        (fst (mergeProductData_obj 5 ''W'' (snd (mergeProductData_obj 5 ''W'' sample_heap))))
     = read_merged (snd (mergeProductData_obj 5 ''W'' sample_heap))
        (fst (mergeProductData_obj 5 ''W'' sample_heap))"
proof -
  let ?R = "mergeProductData_obj 5 ''W'' sample_heap"
  let ?R2 = "mergeProductData_obj 5 ''W'' (snd ?R)"
  have r: "?R = (fst ?R, snd ?R)" and r2: "?R2 = (fst ?R2, snd ?R2)" by simp_all
  have a: "5 < next_ref sample_heap" and rf: "refs_at sample_heap 5 = [2, 4]"
    and b: "list_all (input_ok (next_ref sample_heap) sample_heap) (refs_at sample_heap 5)"
    using sample_heap_ok by blast+
  note t = mergeProductData_pure_and_frame[OF a b r r2]
  have t1: "\<forall>x<next_ref sample_heap. cells (snd ?R) x = cells sample_heap x" using t by blast
  have t2: "read_merged (snd ?R) (fst ?R)
      = mergeProductData (map (read_product sample_heap) (refs_at sample_heap 5)) ''W''"
    using t by blast
  have t3: "read_merged (snd ?R2) (fst ?R2) = read_merged (snd ?R) (fst ?R)" using t by blast
  have c0: "cells (snd ?R) 0 = Some (Strings [''a'', ''b''])"
    using t1 by (simp add: sample_heap_def)
  have p: "merged_price (read_merged (snd ?R) (fst ?R)) = ''$10''"
    unfolding t2 rf sample_heap_read
    by (simp add: mergeProductData_def merged_init_def merge_step_def assign_if_unset_def blank_def)
  have f: "merged_features (read_merged (snd ?R) (fst ?R)) = [''a'', ''b'', ''c'']"
    unfolding t2 rf sample_heap_read
    by (simp add: mergeProductData_def merged_init_def merge_step_def new_Set_def Set_add_def blank_def)
  from c0 p f t3 show ?thesis by blast
qed

end
